theory Spec2Isabelle
  imports Main
begin

section \<open>Data model of the dependency gatherer\<close>

text \<open>
  The development embeds \<^verbatim>\<open>src/extensions/mod_management/util/dependencies.ts\<close>.
  Optional properties of the TypeScript interfaces are \<open>option\<close> fields, \<open>None\<close>
  standing for \<open>undefined\<close>. File sizes and timestamps are whole numbers in the
  application and are integers here.
\<close>

datatype error = TypeError string | Error string

fun message :: "error \<Rightarrow> string" where
  "message (TypeError m) = m"
| "message (Error m) = m"

record IReference =
  gameId :: "string option"
  fileMD5 :: "string option"
  fileSize :: "int option"
  logicalFileName :: "string option"
  fileExpression :: "string option"
  versionMatch :: "string option"

record IRule =
  type :: string
  reference :: IReference

record IModInfo =
  gameId :: string
  fileMD5 :: string
  fileSizeBytes :: int
  logicalFileName :: "string option"
  fileName :: string
  fileVersion :: string
  rules :: "IRule list option"

text \<open>The field \<open>value\<close> of a lookup result is \<open>lookup_value\<close> here.\<close>

record ILookupResult =
  key :: string
  lookup_value :: "IModInfo option"

record IDependency =
  download :: "string option"
  reference :: IReference
  lookupResults :: "ILookupResult list"

text \<open>
  An installed mod is only ever handed to the external match predicate; its identifier
  (\<open>id\<close> in the source) and its attribute table are kept.
\<close>

record IMod =
  mod_id :: string
  attributes :: "(string \<times> string) list"

text \<open>
  The \<open>modInfo\<close> table of a download, as far as \<open>getSafe\<close> reads it: the paths
  \<open>['modInfo', 'version']\<close> and \<open>['modInfo', 'name']\<close>.
\<close>

record modInfoTable =
  version :: "string option"
  name :: "string option"

text \<open>The field \<open>size\<close> of a download is \<open>dl_size\<close> here.\<close>

record IDownload =
  fileMD5 :: "string option"
  localPath :: "string option"
  dl_size :: int
  modInfo :: "modInfoTable option"
  fileTime :: int

record IModLookupInfo =
  fileMD5 :: "string option"
  fileName :: "string option"
  fileSizeBytes :: int
  version :: "string option"
  logicalFileName :: "string option"

text \<open>The parameter type \<open>IMod | IModLookupInfo\<close> of \<open>testModReference\<close>.\<close>

datatype matchable = ModShape IMod | LookupShape IModLookupInfo

text \<open>
  The state snapshot: the active game, the installed mods of each game in the order
  \<open>Object.values\<close> enumerates them (a game without a table reads as \<open>undefined\<close>), and
  the downloads in the order \<open>Object.keys\<close> enumerates them.
\<close>

record IState =
  activeGameId :: string
  mods :: "string \<Rightarrow> IMod list option"
  files :: "(string \<times> IDownload) list"

text \<open>
  A semantic version as \<open>semver.coerce\<close> produces it: three numbers, no prerelease tag.
\<close>

record SemVer =
  major :: nat
  minor :: nat
  patch :: nat

text \<open>
  The functions imported from outside the repository's sources are parameters of the
  model: \<open>minimatch\<close>, \<open>semver.satisfies\<close>, \<open>semver.validRange\<close>, \<open>semver.coerce\<close>
  on strings, and the match predicate \<open>testModReference\<close>.
\<close>

record externals =
  minimatch :: "string \<Rightarrow> string \<Rightarrow> bool"
  satisfies :: "string \<Rightarrow> string \<Rightarrow> bool"
  validRange :: "string \<Rightarrow> string option"
  coerce_string :: "string \<Rightarrow> SemVer option"
  testModReference :: "matchable \<Rightarrow> IReference \<Rightarrow> bool"

section \<open>Fuzzy versions\<close>

text \<open>
  Modelled from the spec: \<open>truthy\<close> of \<open>util/util\<close> is not among the sources; the
  classifier "returns false for an absent/empty string", so \<open>truthy\<close> is false exactly
  on \<open>undefined\<close> and on the empty string.
\<close>

definition truthy :: "string option \<Rightarrow> bool" where
  "truthy val = (case val of None \<Rightarrow> False | Some s \<Rightarrow> s \<noteq> [])"

text \<open>
  \<open>isNaN(parseInt(c, 16))\<close> for a string \<open>c\<close> of one character: \<open>parseInt\<close> yields a
  number exactly when the character is a hexadecimal digit.
\<close>

definition hexDigit :: "char \<Rightarrow> bool" where
  "hexDigit c = (c \<in> set ''0123456789abcdefABCDEF'')"

definition isFuzzyVersion :: "externals \<Rightarrow> string option \<Rightarrow> bool" where
  "isFuzzyVersion ext vm =
     (if \<not> truthy vm then False
      else (case vm of
              None \<Rightarrow> False
            | Some s \<Rightarrow> \<not> hexDigit (hd s) \<or> validRange ext s \<noteq> Some s))"

section \<open>Matching against installed mods and downloads\<close>

text \<open>\<open>_.omit(reference, ['fileMD5'])\<close>: a copy without the property.\<close>

definition omit_fileMD5 :: "IReference \<Rightarrow> IReference" where
  "omit_fileMD5 r = r\<lparr>IReference.fileMD5 := None\<rparr>"

text \<open>\<open>Array.prototype.find\<close>.\<close>

fun find_first :: "('a \<Rightarrow> bool) \<Rightarrow> 'a list \<Rightarrow> 'a option" where
  "find_first p [] = None"
| "find_first p (x # xs) = (if p x then Some x else find_first p xs)"

text \<open>
  \<open>Object.values(mods)\<close> throws a \<open>TypeError\<close> when the active game has no table of
  mods.
\<close>

definition findModByRef :: "externals \<Rightarrow> IReference \<Rightarrow> IState \<Rightarrow> error + IMod option" where
  "findModByRef ext ref state =
     (let gameMode = activeGameId state;
          game_mods = mods state gameMode;
          ref' =
            (if IReference.versionMatch ref \<noteq> None
                \<and> isFuzzyVersion ext (IReference.versionMatch ref)
                \<and> IReference.fileMD5 ref \<noteq> None
                \<and> (IReference.logicalFileName ref \<noteq> None
                    \<or> IReference.fileExpression ref \<noteq> None)
             then omit_fileMD5 ref else ref)
      in case game_mods of
           None \<Rightarrow> Inl (TypeError ''Cannot convert undefined or null to object'')
         | Some ms \<Rightarrow> Inr (find_first (\<lambda>m. testModReference ext (ModShape m) ref') ms))"

text \<open>\<open>semver.coerce\<close> returns \<open>null\<close> for anything that is not a string.\<close>

definition coerce :: "externals \<Rightarrow> string option \<Rightarrow> SemVer option" where
  "coerce ext v = (case v of None \<Rightarrow> None | Some s \<Rightarrow> coerce_string ext s)"

text \<open>
  \<open>semver.compare\<close> on versions without prerelease tags: major, then minor, then patch.
\<close>

definition compare_nat :: "nat \<Rightarrow> nat \<Rightarrow> int" where
  "compare_nat a b = (if a < b then - 1 else if b < a then 1 else 0)"

definition semver_compare :: "SemVer \<Rightarrow> SemVer \<Rightarrow> int" where
  "semver_compare a b =
     (if compare_nat (major a) (major b) \<noteq> 0 then compare_nat (major a) (major b)
      else if compare_nat (minor a) (minor b) \<noteq> 0 then compare_nat (minor a) (minor b)
      else compare_nat (patch a) (patch b))"

text \<open>
  Modelled from the spec: \<open>getSafe\<close> of \<open>util/storeHelper\<close> is not among the sources;
  it reads the "attached version" and the "attached logical name" of a download, the
  default \<open>undefined\<close> where the table or the entry is missing.
\<close>

definition getSafe_version :: "IDownload \<Rightarrow> string option" where
  "getSafe_version d = (case modInfo d of None \<Rightarrow> None | Some mi \<Rightarrow> modInfoTable.version mi)"

definition getSafe_name :: "IDownload \<Rightarrow> string option" where
  "getSafe_name d = (case modInfo d of None \<Rightarrow> None | Some mi \<Rightarrow> name mi)"

definition newerSort :: "externals \<Rightarrow> IDownload \<Rightarrow> IDownload \<Rightarrow> int" where
  "newerSort ext lhs rhs =
     (let lVersion = coerce ext (getSafe_version lhs);
          rVersion = coerce ext (getSafe_version rhs)
      in case (lVersion, rVersion) of
           (Some l, Some r) \<Rightarrow> semver_compare r l
         | _ \<Rightarrow> fileTime rhs - fileTime lhs)"

text \<open>
  \<open>Array.prototype.sort\<close> with a comparator, as a stable insertion sort: an element
  moves behind the elements the comparator puts strictly before it, and stays in front
  of the elements it compares equal to. Where the comparator is a consistent order
  every stable sort returns this list; where it is not, the order an engine returns is
  its own and may differ from this one.
\<close>

fun insort_cmp :: "('a \<Rightarrow> 'a \<Rightarrow> int) \<Rightarrow> 'a \<Rightarrow> 'a list \<Rightarrow> 'a list" where
  "insort_cmp cmp x [] = [x]"
| "insort_cmp cmp x (y # ys) = (if cmp x y \<le> 0 then x # y # ys else y # insort_cmp cmp x ys)"

definition sort_cmp :: "('a \<Rightarrow> 'a \<Rightarrow> int) \<Rightarrow> 'a list \<Rightarrow> 'a list" where
  "sort_cmp cmp xs = foldr (insort_cmp cmp) xs []"

text \<open>\<open>xs[0]\<close>, \<open>undefined\<close> on the empty array.\<close>

definition first :: "'a list \<Rightarrow> 'a option" where
  "first xs = (case xs of [] \<Rightarrow> None | x # _ \<Rightarrow> Some x)"

definition lookupOf :: "IDownload \<Rightarrow> IModLookupInfo" where
  "lookupOf dl =
     \<lparr> IModLookupInfo.fileMD5 = IDownload.fileMD5 dl,
       fileName = localPath dl,
       fileSizeBytes = dl_size dl,
       version = getSafe_version dl,
       logicalFileName = getSafe_name dl \<rparr>"

text \<open>
  The keys of the downloads are distinct, so the entries (key and download) are
  filtered and sorted and the key of the first one is returned.
\<close>

definition findDownloadByRef :: "externals \<Rightarrow> IReference \<Rightarrow> IState \<Rightarrow> string option" where
  "findDownloadByRef ext ref state =
     (let downloads = files state;
          ref' =
            (if isFuzzyVersion ext (IReference.versionMatch ref)
                \<and> IReference.fileMD5 ref \<noteq> None
                \<and> (IReference.logicalFileName ref \<noteq> None
                    \<or> IReference.fileExpression ref \<noteq> None)
             then omit_fileMD5 ref else ref);
          existing =
            sort_cmp (\<lambda>lhs rhs. newerSort ext (snd lhs) (snd rhs))
              (filter (\<lambda>(dlId, dl). testModReference ext (LookupShape (lookupOf dl)) ref')
                 downloads)
      in map_option fst (first existing))"

section \<open>Fulfilment of a reference by a lookup result\<close>

text \<open>
  \<open>&&\<close> evaluates its right operand only when the left one is true; reading a property
  of \<open>undefined\<close> throws a \<open>TypeError\<close>.
\<close>

definition andAlso :: "error + bool \<Rightarrow> error + bool \<Rightarrow> error + bool" where
  "andAlso a b = (case a of Inl e \<Rightarrow> Inl e | Inr False \<Rightarrow> Inr False | Inr True \<Rightarrow> b)"

definition ofValue :: "IModInfo option \<Rightarrow> (IModInfo \<Rightarrow> bool) \<Rightarrow> error + bool" where
  "ofValue v p =
     (case v of
        None \<Rightarrow> Inl (TypeError ''Cannot read property of undefined'')
      | Some i \<Rightarrow> Inr (p i))"

definition lookupFulfills :: "externals \<Rightarrow> ILookupResult option \<Rightarrow> IReference \<Rightarrow> error + bool" where
  "lookupFulfills ext lookup ref =
     (case lookup of
        None \<Rightarrow> Inl (TypeError ''Cannot destructure property of undefined'')
      | Some l \<Rightarrow>
          (let v = lookup_value l in
           andAlso (case IReference.gameId ref of None \<Rightarrow> Inr True
                    | Some g \<Rightarrow> ofValue v (\<lambda>i. g = IModInfo.gameId i))
          (andAlso (case IReference.fileMD5 ref of None \<Rightarrow> Inr True
                    | Some h \<Rightarrow> ofValue v (\<lambda>i. h = IModInfo.fileMD5 i))
          (andAlso (case fileSize ref of None \<Rightarrow> Inr True
                    | Some n \<Rightarrow> ofValue v (\<lambda>i. n = IModInfo.fileSizeBytes i))
          (andAlso (case IReference.logicalFileName ref of None \<Rightarrow> Inr True
                    | Some n \<Rightarrow> ofValue v (\<lambda>i. Some n = IModInfo.logicalFileName i))
          (andAlso (case fileExpression ref of None \<Rightarrow> Inr True
                    | Some e \<Rightarrow> ofValue v (\<lambda>i. minimatch ext (IModInfo.fileName i) e))
                   (case versionMatch ref of None \<Rightarrow> Inr True
                    | Some r \<Rightarrow> ofValue v (\<lambda>i. satisfies ext (fileVersion i) r))))))))"

section \<open>Removing duplicates\<close>

text \<open>
  Dependencies are objects: \<open>inner.item !== dep\<close> compares identities. A dependency is
  an address, and a store gives the record at each address. \<open>removeDuplicates\<close> reads
  the store and never writes it.
\<close>

type_synonym addr = nat

record temp_entry =
  dep :: addr
  collateral :: "nat list"

fun filterE :: "('a \<Rightarrow> error + bool) \<Rightarrow> 'a list \<Rightarrow> error + 'a list" where
  "filterE p [] = Inr []"
| "filterE p (x # xs) =
     (case p x of
        Inl e \<Rightarrow> Inl e
      | Inr b \<Rightarrow> (case filterE p xs of
                   Inl e \<Rightarrow> Inl e
                 | Inr ys \<Rightarrow> Inr (if b then x # ys else ys)))"

fun mapE :: "('a \<Rightarrow> error + 'b) \<Rightarrow> 'a list \<Rightarrow> error + 'b list" where
  "mapE f [] = Inr []"
| "mapE f (x # xs) =
     (case f x of
        Inl e \<Rightarrow> Inl e
      | Inr y \<Rightarrow> (case mapE f xs of Inl e \<Rightarrow> Inl e | Inr ys \<Rightarrow> Inr (y # ys)))"

definition collateralOf ::
  "externals \<Rightarrow> (addr \<Rightarrow> IDependency) \<Rightarrow> addr list \<Rightarrow> addr \<Rightarrow> error + nat list" where
  "collateralOf ext h input d =
     (case filterE (\<lambda>(item, idx).
                      if item \<noteq> d
                      then lookupFulfills ext (first (lookupResults (h d)))
                             (IDependency.reference (h item))
                      else Inr False)
                   (zip input [0..<length input]) of
        Inl e \<Rightarrow> Inl e
      | Inr inner \<Rightarrow> Inr (map snd inner))"

text \<open>\<open>temp[idx] = null\<close> for every index of a collateral set.\<close>

definition nullify :: "nat list \<Rightarrow> temp_entry option list \<Rightarrow> temp_entry option list" where
  "nullify idxs temp = fold (\<lambda>idx t. t[idx := None]) idxs temp"

lemma length_nullify [simp]: "length (nullify idxs temp) = length temp"
  unfolding nullify_def by (induction idxs arbitrary: temp) simp_all

text \<open>The \<open>for\<close> loop over \<open>temp\<close>.\<close>

function markLoop :: "nat \<Rightarrow> temp_entry option list \<Rightarrow> temp_entry option list" where
  "markLoop i temp =
     (if i < length temp
      then (case temp ! i of
              None \<Rightarrow> markLoop (i + 1) temp
            | Some e \<Rightarrow> markLoop (i + 1) (nullify (collateral e) temp))
      else temp)"
  by pat_completeness auto
termination
  by (relation "measure (\<lambda>(i, temp). length temp - i)") auto

declare markLoop.simps [simp del]

definition removeDuplicates ::
  "externals \<Rightarrow> (addr \<Rightarrow> IDependency) \<Rightarrow> addr list \<Rightarrow> error + addr list" where
  "removeDuplicates ext h input =
     (case mapE (\<lambda>d. case collateralOf ext h input d of
                       Inl e \<Rightarrow> Inl e
                     | Inr c \<Rightarrow> Inr \<lparr> dep = d, collateral = c \<rparr>) input of
        Inl e \<Rightarrow> Inl e
      | Inr entries \<Rightarrow>
          (let temp = map Some
                 (sort_cmp (\<lambda>lhs rhs. int (length (collateral rhs)) - int (length (collateral lhs)))
                    entries)
           in Inr (map dep (List.map_filter (\<lambda>iter. iter) (markLoop 0 temp)))))"

section \<open>Gathering dependencies\<close>

text \<open>
  What a resolution does besides returning a list is recorded in a world that is passed
  along: the store of the \<open>IDependency\<close> objects it creates, and the trace of its
  calls of \<open>api.lookupModReference\<close> and of \<open>log\<close>. The remote lookup may answer
  differently at each call: it is a function of the trace so far and of the reference,
  returning the details or the error the promise is rejected with. The state that
  \<open>api.store.getState()\<close> returns is the same snapshot at every call of one resolution.
\<close>

datatype event = LookupCall IReference | Log string string string

record world =
  objs :: "addr \<Rightarrow> IDependency"
  next_addr :: addr
  trace :: "event list"

record api =
  getState :: IState
  lookupModReference :: "event list \<Rightarrow> IReference \<Rightarrow> error + ILookupResult list"

definition alloc :: "IDependency \<Rightarrow> world \<Rightarrow> addr \<times> world" where
  "alloc d w = (next_addr w, w\<lparr>objs := (objs w)(next_addr w := d), next_addr := Suc (next_addr w)\<rparr>)"

definition emit :: "event \<Rightarrow> world \<Rightarrow> world" where
  "emit ev w = w\<lparr>trace := trace w @ [ev]\<rparr>"

definition log_failed :: "error \<Rightarrow> world \<Rightarrow> world" where
  "log_failed err w = emit (Log ''error'' ''failed to look up'' (message err)) w"

text \<open>
  A promise settles with a value or an error, in the world it left, or never settles:
  \<open>None\<close>. \<open>Promise.reduce\<close> runs the callback on one element after the other and
  rejects at the first rejection.
\<close>

type_synonym 'a promise = "((error + 'a) \<times> world) option"

fun promiseReduce ::
  "('b \<Rightarrow> 'a \<Rightarrow> world \<Rightarrow> 'b promise) \<Rightarrow> 'a list \<Rightarrow> 'b \<Rightarrow> world \<Rightarrow> 'b promise" where
  "promiseReduce f [] acc w = Some (Inr acc, w)"
| "promiseReduce f (x # xs) acc w =
     Option.bind (f acc x w)
       (\<lambda>(r, w'). case r of Inl e \<Rightarrow> Some (Inl e, w') | Inr acc' \<Rightarrow> promiseReduce f xs acc' w')"

lemma promiseReduce_mono [partial_function_mono]:
  assumes "\<And>acc x w. mono_option (\<lambda>f. F f acc x w)"
  shows "mono_option (\<lambda>f. promiseReduce (F f) xs acc w)"
proof (induction xs arbitrary: acc w)
  case Nil
  show ?case by (simp add: option.const_mono)
next
  case (Cons x xs)
  show ?case
    apply simp
    apply (rule bind_mono)
     apply (rule assms)
    subgoal for y
      apply (cases y)
      subgoal for r w'
        apply (cases r)
         apply (simp_all add: option.const_mono Cons.IH)
        done
      done
    done
qed

text \<open>
  The callback of \<open>Promise.reduce\<close> in \<open>gatherDependencies\<close>, with the recursive call
  as the parameter \<open>gather\<close>. A throw of \<open>findModByRef\<close> happens before the promise
  chain with its \<open>catch\<close> is built and rejects the reduction. The error message is
  the string \<open>'reference not found: ' + rule.reference\<close>, with an object on the right.
\<close>

definition requirementStep ::
  "(IRule list option \<Rightarrow> world \<Rightarrow> addr list promise) \<Rightarrow> externals \<Rightarrow> api \<Rightarrow> IState
     \<Rightarrow> addr list \<Rightarrow> IRule \<Rightarrow> world \<Rightarrow> addr list promise" where
  "requirementStep gather ext api state acc rule w =
     (case findModByRef ext (IRule.reference rule) state of
        Inl e \<Rightarrow> Some (Inl e, w)
      | Inr (Some m) \<Rightarrow> Some (Inr acc, w)
      | Inr None \<Rightarrow>
          (let w1 = emit (LookupCall (IRule.reference rule)) w in
           case lookupModReference api (trace w) (IRule.reference rule) of
             Inl err \<Rightarrow> Some (Inr acc, log_failed err w1)
           | Inr details \<Rightarrow>
               (case details of
                  [] \<Rightarrow> Some (Inr acc,
                          log_failed (Error ''reference not found: [object Object]'') w1)
                | d # ds \<Rightarrow>
                    (case lookup_value d of
                       None \<Rightarrow> Some (Inr acc,
                          log_failed (Error ''reference not found: [object Object]'') w1)
                     | Some v \<Rightarrow>
                         Option.bind (gather (rules v) w1)
                           (\<lambda>(r, w2). case r of
                               Inl err \<Rightarrow> Some (Inr acc, log_failed err w2)
                             | Inr dependencies \<Rightarrow>
                                 (let (a, w3) = alloc
                                        \<lparr> download = findDownloadByRef ext (IRule.reference rule) state,
                                          reference = IRule.reference rule,
                                          lookupResults = details \<rparr> w2
                                  in Some (Inr (acc @ dependencies @ [a]), w3)))))))"

lemma requirementStep_mono [partial_function_mono]:
  assumes "\<And>rs w. mono_option (\<lambda>f. G f rs w)"
  shows "mono_option (\<lambda>f. requirementStep (G f) ext api state acc rule w)"
proof (cases "findModByRef ext (IRule.reference rule) state")
  case (Inl e)
  then show ?thesis by (simp add: requirementStep_def option.const_mono)
next
  case (Inr found)
  show ?thesis
  proof (cases found)
    case (Some m)
    with Inr show ?thesis by (simp add: requirementStep_def option.const_mono)
  next
    case None
    show ?thesis
    proof (cases "lookupModReference api (trace w) (IRule.reference rule)")
      case (Inl err)
      with Inr None show ?thesis by (simp add: requirementStep_def option.const_mono)
    next
      case details: (Inr details)
      show ?thesis
      proof (cases details)
        case Nil
        with Inr None details show ?thesis by (simp add: requirementStep_def option.const_mono)
      next
        case (Cons d ds)
        show ?thesis
        proof (cases "lookup_value d")
          case no_value: None
          with Inr None details Cons show ?thesis
            by (simp add: requirementStep_def option.const_mono)
        next
          case (Some v)
          with Inr None details Cons show ?thesis
            by (simp add: requirementStep_def Let_def)
               (intro bind_mono assms option.const_mono)
        qed
      qed
    qed
  qed
qed

text \<open>
  The recursion follows the rules the lookup returns and need not end; the function is
  the least fixed point, \<open>None\<close> where the source never settles.
\<close>

partial_function (option) gatherDependencies ::
  "externals \<Rightarrow> api \<Rightarrow> IRule list option \<Rightarrow> world \<Rightarrow> addr list promise" where
  "gatherDependencies ext api rs w =
     (let state = getState api;
          requirements =
            (case rs of None \<Rightarrow> [] | Some l \<Rightarrow> filter (\<lambda>rule. type rule = ''requires'') l)
      in Option.bind
           (promiseReduce (requirementStep (gatherDependencies ext api) ext api state)
              requirements [] w)
           (\<lambda>(r, w'). case r of
               Inl e \<Rightarrow> Some (Inl e, w')
             | Inr input \<Rightarrow> Some (removeDuplicates ext (objs w') input, w')))"

section \<open>Claims\<close>

subsection \<open>Fuzzy versions\<close>

text \<open>
  A library for the concrete examples. A range is valid, and its own canonical form,
  exactly when it is \<open>1.2.3\<close>; \<open>1.0.0\<close> and \<open>2.0.0\<close> are the strings that coerce to a
  version; a file matches the pattern, and a version the range, that equals it; the
  match predicate compares the hash of the reference, if there is one, with the hash
  of the mod or download.
\<close>

fun shape_md5 :: "matchable \<Rightarrow> string option" where
  "shape_md5 (ModShape m) = map_of (attributes m) ''fileMD5''"
| "shape_md5 (LookupShape l) = IModLookupInfo.fileMD5 l"

definition ext_plain :: externals where
  "ext_plain =
     \<lparr> minimatch = (\<lambda>f p. f = p),
       satisfies = (\<lambda>v r. v = r),
       validRange = (\<lambda>s. if s = ''1.2.3'' then Some s else None),
       coerce_string = (\<lambda>s. if s = ''1.0.0'' then Some \<lparr> major = 1, minor = 0, patch = 0 \<rparr>
                            else if s = ''2.0.0'' then Some \<lparr> major = 2, minor = 0, patch = 0 \<rparr>
                            else None),
       testModReference = (\<lambda>m r. case IReference.fileMD5 r of None \<Rightarrow> True
                                   | Some h \<Rightarrow> shape_md5 m = Some h) \<rparr>"

text \<open>
  C7. \<open>isFuzzyVersion\<close> is false for an absent and for an empty version string; for a
  non-empty string it is true exactly when the first character is not a hexadecimal
  digit or the string differs from what \<open>semver.validRange\<close> returns for it. It is
  true for \<open>latest\<close>, and false for \<open>1.2.3\<close> as \<open>validRange\<close> returns \<open>1.2.3\<close> for it.
\<close>

theorem isFuzzyVersion_characterised:
  "isFuzzyVersion ext None = False
   \<and> isFuzzyVersion ext (Some []) = False
   \<and> (s \<noteq> [] \<longrightarrow>
        isFuzzyVersion ext (Some s) = (\<not> hexDigit (hd s) \<or> validRange ext s \<noteq> Some s))
   \<and> isFuzzyVersion ext (Some ''latest'') = True
   \<and> (validRange ext ''1.2.3'' = Some ''1.2.3'' \<longrightarrow>
        isFuzzyVersion ext (Some ''1.2.3'') = False)"
  by (simp add: isFuzzyVersion_def truthy_def hexDigit_def)

theorem isFuzzyVersion_characterised_witness:
  "''0.9'' \<noteq> [] \<and> isFuzzyVersion ext_plain (Some ''0.9'') = True
   \<and> validRange ext_plain ''1.2.3'' = Some ''1.2.3''
   \<and> isFuzzyVersion ext_plain (Some ''1.2.3'') = False"
  using isFuzzyVersion_characterised [of ext_plain "''0.9''"]
  by (simp add: ext_plain_def hexDigit_def)

subsection \<open>Fulfilment\<close>

lemma andAlso_Inr: "andAlso (Inr a) (Inr b) = Inr (a \<and> b)"
  by (cases a) (simp_all add: andAlso_def)

lemma andAlso_False: "andAlso (Inr False) b = Inr False"
  by (simp add: andAlso_def)

lemma constraint_on_value:
  "(case x of None \<Rightarrow> Inr True | Some g \<Rightarrow> ofValue (Some v) (p g))
     = Inr (case x of None \<Rightarrow> True | Some g \<Rightarrow> p g v)"
  by (cases x) (simp_all add: ofValue_def)

lemma constraint_absent:
  "(case None of None \<Rightarrow> Inr True | Some g \<Rightarrow> ofValue v (p g)) = Inr True"
  by simp

definition no_constraints :: IReference where
  "no_constraints =
     \<lparr> IReference.gameId = None, fileMD5 = None, fileSize = None, logicalFileName = None,
       fileExpression = None, versionMatch = None \<rparr>"

definition info_abc :: IModInfo where
  "info_abc =
     \<lparr> IModInfo.gameId = ''skyrim'', fileMD5 = ''abc'', fileSizeBytes = 10,
       logicalFileName = Some ''Core Lib'', fileName = ''core.7z'', fileVersion = ''1.2.0'',
       rules = None \<rparr>"

definition lookup_abc :: ILookupResult where
  "lookup_abc = \<lparr> key = ''k'', lookup_value = Some info_abc \<rparr>"

text \<open>
  C8. For a lookup result with a value, \<open>lookupFulfills\<close> is the conjunction, over the
  fields of the reference that are present, of: equal \<open>gameId\<close>, equal \<open>fileMD5\<close>,
  \<open>fileSize\<close> equal to \<open>fileSizeBytes\<close>, equal \<open>logicalFileName\<close>, \<open>fileExpression\<close>
  matching \<open>fileName\<close>, \<open>versionMatch\<close> satisfied by \<open>fileVersion\<close>. A reference with
  no field is fulfilled by every lookup result. The hash is compared whatever the
  version string looks like: a differing \<open>fileMD5\<close> is never fulfilled.
\<close>

theorem lookupFulfills_conjunction:
  "(lookup_value l = Some v \<longrightarrow>
      lookupFulfills ext (Some l) ref =
        Inr ((case IReference.gameId ref of None \<Rightarrow> True | Some g \<Rightarrow> g = IModInfo.gameId v)
           \<and> (case IReference.fileMD5 ref of None \<Rightarrow> True | Some h \<Rightarrow> h = IModInfo.fileMD5 v)
           \<and> (case fileSize ref of None \<Rightarrow> True | Some n \<Rightarrow> n = IModInfo.fileSizeBytes v)
           \<and> (case IReference.logicalFileName ref of None \<Rightarrow> True
               | Some n \<Rightarrow> Some n = IModInfo.logicalFileName v)
           \<and> (case fileExpression ref of None \<Rightarrow> True
               | Some e \<Rightarrow> minimatch ext (IModInfo.fileName v) e)
           \<and> (case versionMatch ref of None \<Rightarrow> True
               | Some r \<Rightarrow> satisfies ext (fileVersion v) r)))
   \<and> lookupFulfills ext (Some l) no_constraints = Inr True
   \<and> (lookup_value l = Some v \<and> IReference.fileMD5 ref = Some h \<and> h \<noteq> IModInfo.fileMD5 v \<longrightarrow>
        lookupFulfills ext (Some l) ref = Inr False)"
proof (intro conjI impI)
  assume "lookup_value l = Some v"
  then show "lookupFulfills ext (Some l) ref =
        Inr ((case IReference.gameId ref of None \<Rightarrow> True | Some g \<Rightarrow> g = IModInfo.gameId v)
           \<and> (case IReference.fileMD5 ref of None \<Rightarrow> True | Some h \<Rightarrow> h = IModInfo.fileMD5 v)
           \<and> (case fileSize ref of None \<Rightarrow> True | Some n \<Rightarrow> n = IModInfo.fileSizeBytes v)
           \<and> (case IReference.logicalFileName ref of None \<Rightarrow> True
               | Some n \<Rightarrow> Some n = IModInfo.logicalFileName v)
           \<and> (case fileExpression ref of None \<Rightarrow> True
               | Some e \<Rightarrow> minimatch ext (IModInfo.fileName v) e)
           \<and> (case versionMatch ref of None \<Rightarrow> True
               | Some r \<Rightarrow> satisfies ext (fileVersion v) r))"
    by (simp add: lookupFulfills_def Let_def constraint_on_value andAlso_Inr)
next
  show "lookupFulfills ext (Some l) no_constraints = Inr True"
    by (simp add: lookupFulfills_def Let_def no_constraints_def andAlso_Inr)
next
  assume "lookup_value l = Some v \<and> IReference.fileMD5 ref = Some h \<and> h \<noteq> IModInfo.fileMD5 v"
  then show "lookupFulfills ext (Some l) ref = Inr False"
    by (simp add: lookupFulfills_def Let_def constraint_on_value andAlso_Inr ofValue_def)
qed

theorem lookupFulfills_conjunction_witness:
  "lookup_value lookup_abc = Some info_abc
   \<and> lookupFulfills ext_plain (Some lookup_abc) (no_constraints\<lparr>IReference.fileMD5 := Some ''abc''\<rparr>)
       = Inr True
   \<and> IReference.fileMD5 (no_constraints\<lparr>IReference.fileMD5 := Some ''def''\<rparr>) = Some ''def''
   \<and> ''def'' \<noteq> IModInfo.fileMD5 info_abc
   \<and> lookupFulfills ext_plain (Some lookup_abc) (no_constraints\<lparr>IReference.fileMD5 := Some ''def''\<rparr>)
       = Inr False"
  using lookupFulfills_conjunction
          [of lookup_abc info_abc ext_plain "no_constraints\<lparr>IReference.fileMD5 := Some ''abc''\<rparr>"]
        lookupFulfills_conjunction
          [of lookup_abc info_abc ext_plain "no_constraints\<lparr>IReference.fileMD5 := Some ''def''\<rparr>" "''def''"]
  by (simp add: lookup_abc_def info_abc_def no_constraints_def)

subsection \<open>Relaxing a reference\<close>

text \<open>
  The relaxation in the words of the specification: a copy without \<open>fileMD5\<close> when the
  version is fuzzy, the hash is present and the logical file name or the file
  expression is present; the reference itself otherwise.
\<close>

definition relax :: "externals \<Rightarrow> IReference \<Rightarrow> IReference" where
  "relax ext ref =
     (if isFuzzyVersion ext (versionMatch ref) \<and> IReference.fileMD5 ref \<noteq> None
         \<and> (IReference.logicalFileName ref \<noteq> None \<or> fileExpression ref \<noteq> None)
      then ref\<lparr>IReference.fileMD5 := None\<rparr> else ref)"

lemma fuzzy_present: "isFuzzyVersion ext (versionMatch ref) \<Longrightarrow> versionMatch ref \<noteq> None"
  by (cases "versionMatch ref") (simp_all add: isFuzzyVersion_def truthy_def)

lemma findModByRef_relax:
  "findModByRef ext ref state =
     (case mods state (activeGameId state) of
        None \<Rightarrow> Inl (TypeError ''Cannot convert undefined or null to object'')
      | Some ms \<Rightarrow> Inr (find_first (\<lambda>m. testModReference ext (ModShape m) (relax ext ref)) ms))"
  using fuzzy_present [of ext ref]
  by (auto simp: findModByRef_def relax_def omit_fileMD5_def Let_def split: option.splits)

text \<open>The downloads whose lookup shape matches the relaxed reference.\<close>

definition matching :: "externals \<Rightarrow> IReference \<Rightarrow> IState \<Rightarrow> (string \<times> IDownload) list" where
  "matching ext ref state =
     filter (\<lambda>(dlId, dl). testModReference ext (LookupShape (lookupOf dl)) (relax ext ref))
       (files state)"

lemma findDownloadByRef_relax:
  "findDownloadByRef ext ref state =
     map_option fst (first
       (sort_cmp (\<lambda>lhs rhs. newerSort ext (snd lhs) (snd rhs)) (matching ext ref state)))"
  by (auto simp: findDownloadByRef_def matching_def relax_def omit_fileMD5_def Let_def)

text \<open>
  C4. \<open>findModByRef\<close> and \<open>findDownloadByRef\<close> both hand to the match predicate the
  reference relaxed as the specification says: the first installed mod matching it,
  and the first of the sorted downloads whose lookup shape matches it. The check
  \<open>versionMatch !== undefined\<close> of \<open>findModByRef\<close> changes nothing.
\<close>

theorem resolvers_relax_identically:
  "findModByRef ext ref state =
     (case mods state (activeGameId state) of
        None \<Rightarrow> Inl (TypeError ''Cannot convert undefined or null to object'')
      | Some ms \<Rightarrow> Inr (find_first (\<lambda>m. testModReference ext (ModShape m) (relax ext ref)) ms))
   \<and> findDownloadByRef ext ref state =
       map_option fst (first
         (sort_cmp (\<lambda>lhs rhs. newerSort ext (snd lhs) (snd rhs))
            (filter (\<lambda>(dlId, dl). testModReference ext (LookupShape (lookupOf dl)) (relax ext ref))
               (files state))))"
  using findModByRef_relax [of ext ref state] findDownloadByRef_relax [of ext ref state]
  by (simp add: matching_def)

definition ref_fuzzy :: IReference where
  "ref_fuzzy =
     \<lparr> IReference.gameId = None, fileMD5 = Some ''zzz'', fileSize = None,
       logicalFileName = Some ''Core Lib'', fileExpression = None,
       versionMatch = Some ''latest'' \<rparr>"

definition mod_a :: IMod where
  "mod_a = \<lparr> mod_id = ''a'', attributes = [(''fileMD5'', ''abc'')] \<rparr>"

definition dl_old :: IDownload where
  "dl_old =
     \<lparr> IDownload.fileMD5 = Some ''abc'', localPath = Some ''core-1.7z'', dl_size = 10,
       modInfo = Some \<lparr> modInfoTable.version = Some ''1.0.0'', name = Some ''Core Lib'' \<rparr>,
       fileTime = 50 \<rparr>"

definition dl_new :: IDownload where
  "dl_new =
     \<lparr> IDownload.fileMD5 = Some ''abd'', localPath = Some ''core-2.7z'', dl_size = 11,
       modInfo = Some \<lparr> modInfoTable.version = Some ''2.0.0'', name = Some ''Core Lib'' \<rparr>,
       fileTime = 10 \<rparr>"

definition state_installed :: IState where
  "state_installed =
     \<lparr> activeGameId = ''skyrim'',
       mods = (\<lambda>g. if g = ''skyrim'' then Some [mod_a] else None),
       files = [(''dl1'', dl_old), (''dl2'', dl_new)] \<rparr>"

theorem resolvers_relax_identically_witness:
  "relax ext_plain ref_fuzzy = ref_fuzzy\<lparr>IReference.fileMD5 := None\<rparr>
   \<and> findModByRef ext_plain ref_fuzzy state_installed = Inr (Some mod_a)
   \<and> findDownloadByRef ext_plain ref_fuzzy state_installed = Some ''dl2''"
  using resolvers_relax_identically [of ext_plain ref_fuzzy state_installed]
  by (simp add: relax_def isFuzzyVersion_def truthy_def hexDigit_def ref_fuzzy_def
        ext_plain_def state_installed_def sort_cmp_def first_def newerSort_def coerce_def
        getSafe_version_def dl_old_def dl_new_def semver_compare_def compare_nat_def)

subsection \<open>Removing duplicates\<close>

lemma set_insort_cmp: "set (insort_cmp cmp x ys) = insert x (set ys)"
  by (induction ys) auto

lemma length_insort_cmp: "length (insort_cmp cmp x ys) = Suc (length ys)"
  by (induction ys) auto

lemma set_sort_cmp: "set (sort_cmp cmp xs) = set xs"
  unfolding sort_cmp_def by (induction xs) (simp_all add: set_insort_cmp)

lemma length_sort_cmp: "length (sort_cmp cmp xs) = length xs"
  unfolding sort_cmp_def by (induction xs) (simp_all add: length_insort_cmp)

lemma mapE_entries:
  "mapE (\<lambda>d. case c d of Inl e \<Rightarrow> Inl e | Inr k \<Rightarrow> Inr \<lparr> dep = d, collateral = k \<rparr>) ds = Inr entries
   \<Longrightarrow> map dep entries = ds"
  by (induction ds arbitrary: entries) (auto split: sum.splits)

definition thinned :: "'a option list \<Rightarrow> 'a option list \<Rightarrow> bool" where
  "thinned r t = (length r = length t \<and> (\<forall>j < length t. r ! j = None \<or> r ! j = t ! j))"

lemma thinned_refl: "thinned t t"
  by (simp add: thinned_def)

lemma thinned_trans: "thinned r s \<Longrightarrow> thinned s t \<Longrightarrow> thinned r t"
  unfolding thinned_def by (metis (no_types))

lemma thinned_update: "thinned (t[idx := None]) t"
  by (cases "idx < length t") (auto simp: thinned_def nth_list_update)

lemma thinned_nullify: "thinned (nullify idxs t) t"
  unfolding nullify_def
proof (induction idxs arbitrary: t)
  case Nil
  show ?case by (simp add: thinned_refl)
next
  case (Cons i idxs)
  show ?case
    using thinned_trans [OF Cons.IH [of "t[i := None]"] thinned_update [of t i]] by simp
qed

lemma thinned_markLoop: "thinned (markLoop i t) t"
proof (induction i t rule: markLoop.induct)
  case (1 i temp)
  show ?case
  proof (cases "i < length temp")
    case False
    then show ?thesis by (subst markLoop.simps) (simp add: thinned_refl)
  next
    case True
    show ?thesis
    proof (cases "temp ! i")
      case None
      with True "1.IH"(1) show ?thesis by (subst markLoop.simps) simp
    next
      case (Some e)
      with True "1.IH"(2) [OF True Some] show ?thesis
        by (subst markLoop.simps) (auto intro: thinned_trans thinned_nullify)
    qed
  qed
qed

lemma thinned_survivors:
  "thinned r t \<Longrightarrow> set (List.map_filter (\<lambda>x. x) r) \<subseteq> set (List.map_filter (\<lambda>x. x) t)"
proof
  fix x
  assume th: "thinned r t" and "x \<in> set (List.map_filter (\<lambda>x. x) r)"
  then have "Some x \<in> set r" by (auto simp: List.map_filter_def)
  then obtain j where j: "j < length r" "r ! j = Some x" by (auto simp: in_set_conv_nth)
  with th have "t ! j = Some x" "j < length t" by (auto simp: thinned_def)
  then have "Some x \<in> set t" by (metis nth_mem)
  then show "x \<in> set (List.map_filter (\<lambda>x. x) t)" by (force simp: List.map_filter_def)
qed

lemma length_survivors: "length (List.map_filter (\<lambda>x. x) r) \<le> length r"
  by (simp add: List.map_filter_def)

lemma survivors_Some: "List.map_filter (\<lambda>x. x) (map Some xs) = xs"
  by (induction xs) (simp_all add: List.map_filter_def)

lemma markLoop_done: "\<not> i < length temp \<Longrightarrow> markLoop i temp = temp"
  by (subst markLoop.simps) simp

lemma markLoop_null:
  "i < length temp \<Longrightarrow> temp ! i = None \<Longrightarrow> markLoop i temp = markLoop (Suc i) temp"
  by (subst markLoop.simps) simp

lemma markLoop_entry:
  "i < length temp \<Longrightarrow> temp ! i = Some e \<Longrightarrow>
     markLoop i temp = markLoop (Suc i) (nullify (collateral e) temp)"
  by (subst markLoop.simps) simp

lemma removeDuplicates_Nil: "removeDuplicates ext h [] = Inr []"
  by (simp add: removeDuplicates_def sort_cmp_def List.map_filter_def markLoop_done)

lemma removeDuplicates_subset:
  assumes "removeDuplicates ext h input = Inr out"
  shows "set out \<subseteq> set input" and "length out \<le> length input"
proof -
  let ?c = "\<lambda>d. case collateralOf ext h input d of
                  Inl e \<Rightarrow> Inl e | Inr c \<Rightarrow> Inr \<lparr> dep = d, collateral = c \<rparr>"
  let ?cmp = "\<lambda>lhs rhs. int (length (collateral rhs)) - int (length (collateral lhs))"
  from assms obtain entries where ent: "mapE ?c input = Inr entries"
    and out: "out = map dep (List.map_filter (\<lambda>x. x) (markLoop 0 (map Some (sort_cmp ?cmp entries))))"
    by (auto simp: removeDuplicates_def Let_def split: sum.splits)
  have deps: "map dep entries = input" using mapE_entries [OF ent] .
  have "set (List.map_filter (\<lambda>x. x) (markLoop 0 (map Some (sort_cmp ?cmp entries))))
          \<subseteq> set (sort_cmp ?cmp entries)"
    using thinned_survivors [OF thinned_markLoop [of 0 "map Some (sort_cmp ?cmp entries)"]]
    by (simp add: survivors_Some)
  then have "set out \<subseteq> dep ` set entries"
    unfolding out by (auto simp: set_sort_cmp)
  also have "\<dots> = set input" using deps by (metis set_map)
  finally show "set out \<subseteq> set input" .
  have "length out \<le> length (markLoop 0 (map Some (sort_cmp ?cmp entries)))"
    unfolding out using length_survivors by simp
  also have "\<dots> = length entries"
    using thinned_markLoop [of 0 "map Some (sort_cmp ?cmp entries)"]
    by (simp add: thinned_def length_sort_cmp)
  also have "\<dots> = length input" using deps by (metis length_map)
  finally show "length out \<le> length input" .
qed


lemma upt_3: "[0..<length [a, b, c]] = [0, Suc 0, Suc (Suc 0)]"
  by (simp add: upt_rec)

text \<open>
  Dependencies for the concrete examples: each wants a hash and has one lookup result
  with a hash. In \<open>store_xba\<close> the primary lookup result of the dependency at address 2
  fulfils the reference of the one at address 1, and nothing else is fulfilled; in
  \<open>store_abc\<close> the one at address 0 fulfils the two others.
\<close>

definition dep_md5 :: "string \<Rightarrow> string \<Rightarrow> IDependency" where
  "dep_md5 wanted found =
     \<lparr> download = None,
       reference = no_constraints\<lparr>IReference.fileMD5 := Some wanted\<rparr>,
       lookupResults = [\<lparr> key = ''k'', lookup_value = Some (info_abc\<lparr>IModInfo.fileMD5 := found\<rparr>) \<rparr>] \<rparr>"

definition store_xba :: "addr \<Rightarrow> IDependency" where
  "store_xba a =
     (if a = 0 then dep_md5 ''xxx'' ''yyy''
      else if a = 1 then dep_md5 ''abc'' ''bbb''
      else dep_md5 ''aaa'' ''abc'')"

definition store_abc :: "addr \<Rightarrow> IDependency" where
  "store_abc a =
     (if a = 0 then dep_md5 ''aaa'' ''abc''
      else if a = 1 then dep_md5 ''abc'' ''bbb''
      else dep_md5 ''abc'' ''ccc'')"

lemma fulfils_md5:
  "lookupFulfills ext (first (lookupResults (dep_md5 w f))) (IDependency.reference (dep_md5 w' f'))
     = Inr (w' = f)"
  by (cases "w' = f")
     (simp_all add: lookupFulfills_def dep_md5_def first_def no_constraints_def Let_def
        andAlso_def ofValue_def info_abc_def)

lemma removeDuplicates_xba: "removeDuplicates ext_plain store_xba [0, 1, 2] = Inr [2, 1]"
proof -
  let ?input = "[0, Suc 0, Suc (Suc 0)]"
  have u: "[0..<length ?input] = [0, Suc 0, Suc (Suc 0)]"
    by (simp add: upt_rec)
  have c0: "collateralOf ext_plain store_xba ?input 0 = Inr []"
    unfolding collateralOf_def u by (simp add: store_xba_def fulfils_md5)
  have c1: "collateralOf ext_plain store_xba ?input (Suc 0) = Inr []"
    unfolding collateralOf_def u by (simp add: store_xba_def fulfils_md5)
  have c2: "collateralOf ext_plain store_xba ?input (Suc (Suc 0)) = Inr [Suc 0]"
    unfolding collateralOf_def u by (simp add: store_xba_def fulfils_md5)
  have "removeDuplicates ext_plain store_xba ?input = Inr [Suc (Suc 0), Suc 0]"
    unfolding removeDuplicates_def
    by (simp add: c0 c1 c2 sort_cmp_def markLoop_entry markLoop_null markLoop_done nullify_def
          List.map_filter_def)
  then show ?thesis by (simp add: numeral_2_eq_2)
qed

text \<open>
  C10. Every element of the output of \<open>removeDuplicates\<close> is one of the addresses of
  the input, read in the same store, which the function does not write; the output is
  not longer than the input; the empty input gives the empty output.
\<close>

theorem removeDuplicates_selects:
  "(removeDuplicates ext h input = Inr out \<longrightarrow>
      set out \<subseteq> set input \<and> length out \<le> length input)
   \<and> removeDuplicates ext h [] = Inr []"
  using removeDuplicates_subset [of ext h input out] removeDuplicates_Nil [of ext h] by blast

theorem removeDuplicates_selects_witness:
  "removeDuplicates ext_plain store_xba [0, 1, 2] = Inr [2, 1]
   \<and> set [2, 1] \<subseteq> set [0, 1, 2::nat] \<and> length [2, 1::nat] \<le> length [0, 1, 2::nat]"
  using removeDuplicates_selects [of ext_plain store_xba "[0, 1, 2]" "[2, 1]"]
    removeDuplicates_xba
  by simp

text \<open>
  C2. For three distinct dependencies \<open>a\<close>, \<open>b\<close>, \<open>c\<close> given in this order, where the
  primary lookup result of \<open>a\<close> fulfils the references of \<open>b\<close> and of \<open>c\<close> and no other
  of the six fulfilments among them holds, the output is the list of \<open>a\<close> alone.
\<close>

theorem removeDuplicates_three:
  assumes "a \<noteq> b" "a \<noteq> c" "b \<noteq> c"
    and "lookupFulfills ext (first (lookupResults (h a))) (IDependency.reference (h b)) = Inr True"
    and "lookupFulfills ext (first (lookupResults (h a))) (IDependency.reference (h c)) = Inr True"
    and "lookupFulfills ext (first (lookupResults (h b))) (IDependency.reference (h a)) = Inr False"
    and "lookupFulfills ext (first (lookupResults (h b))) (IDependency.reference (h c)) = Inr False"
    and "lookupFulfills ext (first (lookupResults (h c))) (IDependency.reference (h a)) = Inr False"
    and "lookupFulfills ext (first (lookupResults (h c))) (IDependency.reference (h b)) = Inr False"
  shows "removeDuplicates ext h [a, b, c] = Inr [a]"
proof -
  have ca: "collateralOf ext h [a, b, c] a = Inr [Suc 0, Suc (Suc 0)]"
    using assms unfolding collateralOf_def upt_3 by simp
  have cb: "collateralOf ext h [a, b, c] b = Inr []"
    using assms unfolding collateralOf_def upt_3 by simp
  have cc: "collateralOf ext h [a, b, c] c = Inr []"
    using assms unfolding collateralOf_def upt_3 by simp
  show ?thesis
    unfolding removeDuplicates_def
    by (simp add: ca cb cc sort_cmp_def markLoop_entry markLoop_null markLoop_done nullify_def
          List.map_filter_def)
qed



theorem removeDuplicates_three_witness:
  "(0::nat) \<noteq> 1 \<and> (0::nat) \<noteq> 2 \<and> (1::nat) \<noteq> 2
   \<and> lookupFulfills ext_plain (first (lookupResults (store_abc 0)))
         (IDependency.reference (store_abc 1)) = Inr True
   \<and> lookupFulfills ext_plain (first (lookupResults (store_abc 0)))
         (IDependency.reference (store_abc 2)) = Inr True
   \<and> lookupFulfills ext_plain (first (lookupResults (store_abc 1)))
         (IDependency.reference (store_abc 0)) = Inr False
   \<and> lookupFulfills ext_plain (first (lookupResults (store_abc 1)))
         (IDependency.reference (store_abc 2)) = Inr False
   \<and> lookupFulfills ext_plain (first (lookupResults (store_abc 2)))
         (IDependency.reference (store_abc 0)) = Inr False
   \<and> lookupFulfills ext_plain (first (lookupResults (store_abc 2)))
         (IDependency.reference (store_abc 1)) = Inr False
   \<and> removeDuplicates ext_plain store_abc [0, 1, 2] = Inr [0]"
  using removeDuplicates_three [of 0 1 2 ext_plain store_abc]
  by (simp add: store_abc_def fulfils_md5)

text \<open>
  C1, evaluated. The collateral sets hold positions of the input, and the loop uses
  them as positions of the sorted array. On the input of the addresses 0, 1, 2 of
  \<open>store_xba\<close> the entry of address 2 moves to the front, its collateral position 1
  then names the entry of address 0, and the output keeps both address 2 and address 1,
  whose reference the primary lookup result of address 2 fulfils.
\<close>

theorem removeDuplicates_keeps_fulfilled:
  "removeDuplicates ext_plain store_xba [0, 1, 2] = Inr [2, 1]
   \<and> lookupFulfills ext_plain (first (lookupResults (store_xba 2)))
        (IDependency.reference (store_xba 1)) = Inr True"
  using removeDuplicates_xba by (simp add: store_xba_def fulfils_md5)

subsection \<open>The newest matching download\<close>

text \<open>
  Newer, in the words of the specification: with two coercible versions the higher
  version, otherwise the later completion time.
\<close>

definition version_less :: "SemVer \<Rightarrow> SemVer \<Rightarrow> bool" where
  "version_less a b =
     (major a < major b
      \<or> (major a = major b \<and> (minor a < minor b \<or> (minor a = minor b \<and> patch a < patch b))))"

definition newer :: "externals \<Rightarrow> IDownload \<Rightarrow> IDownload \<Rightarrow> bool" where
  "newer ext d r =
     (case (coerce ext (getSafe_version d), coerce ext (getSafe_version r)) of
        (Some dv, Some rv) \<Rightarrow> version_less rv dv
      | _ \<Rightarrow> fileTime r < fileTime d)"

lemma semver_compare_pos: "0 < semver_compare a b \<longleftrightarrow> version_less b a"
  by (auto simp: semver_compare_def compare_nat_def version_less_def split: if_splits)

lemma newerSort_newer: "newerSort ext r d \<le> 0 \<longleftrightarrow> \<not> newer ext d r"
  using semver_compare_pos
  by (auto simp: newerSort_def newer_def Let_def not_less [symmetric] split: option.splits)

lemma newer_asym: "newer ext d r \<Longrightarrow> \<not> newer ext r d"
  by (auto simp: newer_def version_less_def split: option.splits)

lemma sorted_insort_cmp:
  assumes tr: "\<And>x y z. x \<in> S \<Longrightarrow> y \<in> S \<Longrightarrow> z \<in> S \<Longrightarrow>
                 cmp x y \<le> 0 \<Longrightarrow> cmp y z \<le> 0 \<Longrightarrow> cmp x z \<le> 0"
    and tot: "\<And>x y. x \<in> S \<Longrightarrow> y \<in> S \<Longrightarrow> cmp x y \<le> 0 \<or> cmp y x \<le> 0"
  shows "x \<in> S \<Longrightarrow> set ys \<subseteq> S \<Longrightarrow> sorted_wrt (\<lambda>a b. cmp a b \<le> 0) ys
           \<Longrightarrow> sorted_wrt (\<lambda>a b. cmp a b \<le> 0) (insort_cmp cmp x ys)"
proof (induction ys)
  case Nil
  show ?case by simp
next
  case (Cons y ys)
  show ?case
  proof (cases "cmp x y \<le> 0")
    case True
    have "cmp x z \<le> 0" if "z \<in> set ys" for z
      using tr [of x y z] True Cons.prems that by auto
    with True Cons.prems show ?thesis by simp
  next
    case False
    with tot [of x y] Cons.prems have "cmp y x \<le> 0" by auto
    with False Cons show ?thesis by (auto simp: set_insort_cmp)
  qed
qed

lemma sorted_sort_cmp:
  assumes tr: "\<And>x y z. x \<in> S \<Longrightarrow> y \<in> S \<Longrightarrow> z \<in> S \<Longrightarrow>
                 cmp x y \<le> 0 \<Longrightarrow> cmp y z \<le> 0 \<Longrightarrow> cmp x z \<le> 0"
    and tot: "\<And>x y. x \<in> S \<Longrightarrow> y \<in> S \<Longrightarrow> cmp x y \<le> 0 \<or> cmp y x \<le> 0"
  shows "set xs \<subseteq> S \<Longrightarrow> sorted_wrt (\<lambda>a b. cmp a b \<le> 0) (sort_cmp cmp xs)"
proof (induction xs)
  case Nil
  show ?case by (simp add: sort_cmp_def)
next
  case (Cons x xs)
  then have "sorted_wrt (\<lambda>a b. cmp a b \<le> 0) (sort_cmp cmp xs)" by simp
  moreover have "set (sort_cmp cmp xs) \<subseteq> S" using Cons.prems by (simp add: set_sort_cmp)
  moreover have "x \<in> S" using Cons.prems by simp
  ultimately have "sorted_wrt (\<lambda>a b. cmp a b \<le> 0) (insort_cmp cmp x (sort_cmp cmp xs))"
    using sorted_insort_cmp [of S cmp x "sort_cmp cmp xs"] tr tot by blast
  then show ?case by (simp add: sort_cmp_def)
qed

lemma first_None: "first xs = None \<longleftrightarrow> xs = []"
  by (cases xs) (simp_all add: first_def)

lemma first_Some: "first xs = Some x \<Longrightarrow> \<exists>ys. xs = x # ys"
  by (cases xs) (simp_all add: first_def)

lemma sort_cmp_Nil: "sort_cmp cmp xs = [] \<longleftrightarrow> xs = []"
  using length_sort_cmp [of cmp xs] by (metis length_0_conv)

definition consistent :: "externals \<Rightarrow> (string \<times> IDownload) list \<Rightarrow> bool" where
  "consistent ext ms =
     (\<forall>x \<in> set ms. \<forall>y \<in> set ms. \<forall>z \<in> set ms.
        \<not> newer ext (snd y) (snd x) \<longrightarrow> \<not> newer ext (snd z) (snd y) \<longrightarrow> \<not> newer ext (snd z) (snd x))"

lemma findDownloadByRef_None:
  "findDownloadByRef ext ref state = None \<longleftrightarrow> matching ext ref state = []"
  by (simp add: findDownloadByRef_relax first_None sort_cmp_Nil)

lemma findDownloadByRef_matching:
  assumes "findDownloadByRef ext ref state = Some k"
  shows "\<exists>dl ys. sort_cmp (\<lambda>lhs rhs. newerSort ext (snd lhs) (snd rhs)) (matching ext ref state)
                    = (k, dl) # ys"
proof -
  from assms obtain e where "first (sort_cmp (\<lambda>lhs rhs. newerSort ext (snd lhs) (snd rhs))
      (matching ext ref state)) = Some e" and "fst e = k"
    by (auto simp: findDownloadByRef_relax)
  then show ?thesis using first_Some by (cases e) fastforce
qed

lemma findDownloadByRef_newest:
  assumes "consistent ext (matching ext ref state)"
    and "findDownloadByRef ext ref state = Some k"
  shows "\<exists>dl. (k, dl) \<in> set (matching ext ref state)
           \<and> (\<forall>(k', dl') \<in> set (matching ext ref state). \<not> newer ext dl' dl)"
proof -
  let ?cmp = "\<lambda>lhs rhs. newerSort ext (snd lhs) (snd rhs)"
  let ?M = "matching ext ref state"
  from findDownloadByRef_matching [OF assms(2)] obtain dl ys
    where hd: "sort_cmp ?cmp ?M = (k, dl) # ys" by blast
  have tr: "\<And>x y z. x \<in> set ?M \<Longrightarrow> y \<in> set ?M \<Longrightarrow> z \<in> set ?M \<Longrightarrow>
                 ?cmp x y \<le> 0 \<Longrightarrow> ?cmp y z \<le> 0 \<Longrightarrow> ?cmp x z \<le> 0"
    using assms(1) unfolding consistent_def newerSort_newer by blast
  have tot: "\<And>x y. x \<in> set ?M \<Longrightarrow> y \<in> set ?M \<Longrightarrow> ?cmp x y \<le> 0 \<or> ?cmp y x \<le> 0"
    unfolding newerSort_newer using newer_asym by blast
  have "sorted_wrt (\<lambda>a b. ?cmp a b \<le> 0) (sort_cmp ?cmp ?M)"
    using sorted_sort_cmp [of "set ?M" ?cmp ?M] tr tot by blast
  then have below: "\<forall>e \<in> set ys. ?cmp (k, dl) e \<le> 0" unfolding hd by simp
  have mem: "set ?M = insert (k, dl) (set ys)"
    using set_sort_cmp [of ?cmp ?M] unfolding hd by simp
  have self: "\<not> newer ext dl dl" using newer_asym by blast
  have "\<forall>(k', dl') \<in> set ?M. \<not> newer ext dl' dl"
    using below self unfolding mem newerSort_newer by auto
  moreover have "(k, dl) \<in> set ?M" using mem by simp
  ultimately show ?thesis by blast
qed


lemma consistent_coercible:
  assumes "\<forall>e \<in> set ms. coerce ext (getSafe_version (snd e)) \<noteq> None"
  shows "consistent ext ms"
  unfolding consistent_def
proof (intro ballI impI)
  fix x y z
  assume mem: "x \<in> set ms" "y \<in> set ms" "z \<in> set ms"
    and yx: "\<not> newer ext (snd y) (snd x)" and zy: "\<not> newer ext (snd z) (snd y)"
  from assms mem obtain vx vy vz where
    v: "coerce ext (getSafe_version (snd x)) = Some vx"
       "coerce ext (getSafe_version (snd y)) = Some vy"
       "coerce ext (getSafe_version (snd z)) = Some vz"
    by fastforce
  from yx zy have "\<not> version_less vx vy" "\<not> version_less vy vz"
    by (simp_all add: newer_def v)
  then have "\<not> version_less vx vz"
    unfolding version_less_def by auto
  then show "\<not> newer ext (snd z) (snd x)" by (simp add: newer_def v)
qed

lemma consistent_uncoercible:
  assumes "\<forall>e \<in> set ms. coerce ext (getSafe_version (snd e)) = None"
  shows "consistent ext ms"
  unfolding consistent_def using assms by (auto simp: newer_def)

definition dl_plain :: IDownload where
  "dl_plain =
     \<lparr> IDownload.fileMD5 = Some ''abe'', localPath = Some ''core.7z'', dl_size = 12,
       modInfo = None, fileTime = 20 \<rparr>"

definition state_cycle :: IState where
  "state_cycle =
     \<lparr> activeGameId = ''skyrim'',
       mods = (\<lambda>g. if g = ''skyrim'' then Some [] else None),
       files = [(''dl1'', dl_old), (''dl3'', dl_plain), (''dl2'', dl_new)] \<rparr>"

text \<open>
  C6, amended. \<open>findDownloadByRef\<close> returns nothing exactly when no download matches
  the relaxed reference, and otherwise the key of a matching download. When the
  comparison is consistent on the matching downloads (not being newer is transitive
  among them, as it is when all of them or none of them have a coercible version), no
  matching download is newer than the returned one: none has a higher version where
  both versions coerce, and none a later completion time otherwise.
\<close>

theorem findDownloadByRef_newest_if_consistent:
  "(findDownloadByRef ext ref state = None \<longleftrightarrow> matching ext ref state = [])
   \<and> (findDownloadByRef ext ref state = Some k \<longrightarrow> k \<in> fst ` set (matching ext ref state))
   \<and> (consistent ext (matching ext ref state) \<and> findDownloadByRef ext ref state = Some k \<longrightarrow>
        (\<exists>dl. (k, dl) \<in> set (matching ext ref state)
           \<and> (\<forall>(k', dl') \<in> set (matching ext ref state). \<not> newer ext dl' dl)))"
proof (intro conjI impI)
  show "findDownloadByRef ext ref state = None \<longleftrightarrow> matching ext ref state = []"
    by (rule findDownloadByRef_None)
next
  assume "findDownloadByRef ext ref state = Some k"
  from findDownloadByRef_matching [OF this] obtain dl ys where
    "sort_cmp (\<lambda>lhs rhs. newerSort ext (snd lhs) (snd rhs)) (matching ext ref state) = (k, dl) # ys"
    by blast
  then have "(k, dl) \<in> set (matching ext ref state)"
    using set_sort_cmp [of "\<lambda>lhs rhs. newerSort ext (snd lhs) (snd rhs)" "matching ext ref state"]
    by (metis list.set_intros(1))
  then show "k \<in> fst ` set (matching ext ref state)" by force
next
  assume "consistent ext (matching ext ref state) \<and> findDownloadByRef ext ref state = Some k"
  then show "\<exists>dl. (k, dl) \<in> set (matching ext ref state)
           \<and> (\<forall>(k', dl') \<in> set (matching ext ref state). \<not> newer ext dl' dl)"
    using findDownloadByRef_newest by blast
qed

lemma matching_installed:
  "matching ext_plain ref_fuzzy state_installed = [(''dl1'', dl_old), (''dl2'', dl_new)]"
  by (simp add: relax_def isFuzzyVersion_def truthy_def hexDigit_def ref_fuzzy_def
        ext_plain_def state_installed_def matching_def)

lemma newer_samples:
  "newer ext_plain dl_new dl_old" "\<not> newer ext_plain dl_old dl_new"
  "\<not> newer ext_plain dl_old dl_old" "\<not> newer ext_plain dl_new dl_new"
  "newer ext_plain dl_old dl_plain" "newer ext_plain dl_plain dl_new"
  by (simp_all add: newer_def coerce_def getSafe_version_def dl_old_def dl_new_def dl_plain_def
        ext_plain_def version_less_def)

lemma find_installed: "findDownloadByRef ext_plain ref_fuzzy state_installed = Some ''dl2''"
  unfolding findDownloadByRef_relax matching_installed
  by (simp add: sort_cmp_def first_def newerSort_newer newer_samples)

theorem findDownloadByRef_newest_if_consistent_witness:
  "findDownloadByRef ext_plain ref_fuzzy state_installed = Some ''dl2''
   \<and> matching ext_plain ref_fuzzy state_installed = [(''dl1'', dl_old), (''dl2'', dl_new)]
   \<and> \<not> newer ext_plain dl_old dl_new \<and> \<not> newer ext_plain dl_new dl_new"
proof -
  have c: "consistent ext_plain (matching ext_plain ref_fuzzy state_installed)"
    unfolding matching_installed consistent_def by (simp add: newer_samples)
  from findDownloadByRef_newest_if_consistent [of ext_plain ref_fuzzy state_installed "''dl2''"]
    c find_installed
  show ?thesis
    unfolding matching_installed by (auto simp: newer_samples)
qed

text \<open>
  C6 as stated fails: three downloads match, the one of version \<open>2.0.0\<close> is newer than
  the one of version \<open>1.0.0\<close>, and the latter is returned. The comparison has a cycle
  through the download without a version, so every answer has a newer download.
\<close>

theorem findDownloadByRef_not_newest:
  "findDownloadByRef ext_plain no_constraints state_cycle = Some ''dl1''
   \<and> matching ext_plain no_constraints state_cycle
       = [(''dl1'', dl_old), (''dl3'', dl_plain), (''dl2'', dl_new)]
   \<and> newer ext_plain dl_new dl_old
   \<and> newer ext_plain dl_old dl_plain
   \<and> newer ext_plain dl_plain dl_new"
proof -
  have m: "matching ext_plain no_constraints state_cycle
       = [(''dl1'', dl_old), (''dl3'', dl_plain), (''dl2'', dl_new)]"
    by (simp add: relax_def isFuzzyVersion_def truthy_def no_constraints_def
        ext_plain_def state_cycle_def matching_def)
  have "\<not> newer ext_plain dl_plain dl_old" "\<not> newer ext_plain dl_new dl_plain"
    using newer_samples newer_asym by blast+
  then have "findDownloadByRef ext_plain no_constraints state_cycle = Some ''dl1''"
    unfolding findDownloadByRef_relax m
    by (simp add: sort_cmp_def first_def newerSort_newer newer_samples)
  with m newer_samples show ?thesis by simp
qed

subsection \<open>The gatherer\<close>

lemma lookupFulfills_returns:
  "lookup_value l = Some v \<Longrightarrow> \<exists>b. lookupFulfills ext (Some l) ref = Inr b"
  by (simp add: lookupFulfills_def Let_def constraint_on_value andAlso_Inr)

text \<open>The requirements of a rule list, and the last step of \<open>gatherDependencies\<close>.\<close>

definition requirementsOf :: "IRule list option \<Rightarrow> IRule list" where
  "requirementsOf rs =
     (case rs of None \<Rightarrow> [] | Some l \<Rightarrow> filter (\<lambda>rule. type rule = ''requires'') l)"

definition finish :: "externals \<Rightarrow> (error + addr list) \<times> world \<Rightarrow> addr list promise" where
  "finish ext = (\<lambda>(r, w'). case r of
                   Inl e \<Rightarrow> Some (Inl e, w')
                 | Inr input \<Rightarrow> Some (removeDuplicates ext (objs w') input, w'))"

lemma gatherDependencies_unfold:
  "gatherDependencies ext api rs w =
     Option.bind
       (promiseReduce (requirementStep (gatherDependencies ext api) ext api (getState api))
          (requirementsOf rs) [] w)
       (finish ext)"
  by (subst gatherDependencies.simps) (simp add: requirementsOf_def finish_def)

text \<open>The error that reaches the \<open>catch\<close> of the chain when a lookup fails.\<close>

definition lookup_failure :: "error + ILookupResult list \<Rightarrow> error option" where
  "lookup_failure res =
     (case res of
        Inl err \<Rightarrow> Some err
      | Inr [] \<Rightarrow> Some (Error ''reference not found: [object Object]'')
      | Inr (d # ds) \<Rightarrow>
          (case lookup_value d of
             None \<Rightarrow> Some (Error ''reference not found: [object Object]'')
           | Some v \<Rightarrow> None))"

lemma step_installed:
  "findModByRef ext (IRule.reference rule) st = Inr (Some m) \<Longrightarrow>
     requirementStep g ext api st acc rule w = Some (Inr acc, w)"
  by (simp add: requirementStep_def)

lemma step_throws:
  "findModByRef ext (IRule.reference rule) st = Inl e \<Longrightarrow>
     requirementStep g ext api st acc rule w = Some (Inl e, w)"
  by (simp add: requirementStep_def)

lemma step_lookup_failed:
  "findModByRef ext (IRule.reference rule) st = Inr None \<Longrightarrow>
   lookup_failure (lookupModReference api (trace w) (IRule.reference rule)) = Some err \<Longrightarrow>
     requirementStep g ext api st acc rule w
       = Some (Inr acc, log_failed err (emit (LookupCall (IRule.reference rule)) w))"
  by (auto simp: requirementStep_def lookup_failure_def Let_def
           split: sum.splits list.splits option.splits)

lemma step_lookup_found:
  "findModByRef ext (IRule.reference rule) st = Inr None \<Longrightarrow>
   lookupModReference api (trace w) (IRule.reference rule) = Inr (d # ds) \<Longrightarrow>
   lookup_value d = Some v \<Longrightarrow>
     requirementStep g ext api st acc rule w
       = Option.bind (g (rules v) (emit (LookupCall (IRule.reference rule)) w))
           (\<lambda>(r, w2). case r of
               Inl err \<Rightarrow> Some (Inr acc, log_failed err w2)
             | Inr dependencies \<Rightarrow>
                 Some (Inr (acc @ dependencies @ [next_addr w2]),
                   snd (alloc \<lparr> download = findDownloadByRef ext (IRule.reference rule) st,
                                reference = IRule.reference rule,
                                lookupResults = d # ds \<rparr> w2)))"
  by (auto simp: requirementStep_def Let_def alloc_def intro!: arg_cong2 [where f = Option.bind]
           split: sum.splits)

text \<open>
  Invariants of a resolution. A dependency is usable by \<open>removeDuplicates\<close> when its
  first lookup result has a value. A later world extends an earlier one: the objects
  that existed are unchanged and the trace has grown at its end. A dependency is made
  between two worlds when its address was allocated, and the lookup of its reference
  was recorded, between them, and its download is what \<open>findDownloadByRef\<close> finds for
  its reference.
\<close>

definition usable :: "IDependency \<Rightarrow> bool" where
  "usable d = (case lookupResults d of [] \<Rightarrow> False | l # ls \<Rightarrow> lookup_value l \<noteq> None)"

definition extends :: "world \<Rightarrow> world \<Rightarrow> bool" where
  "extends w w' =
     (next_addr w \<le> next_addr w' \<and> (\<forall>a < next_addr w. objs w' a = objs w a)
      \<and> (\<exists>t. trace w' = trace w @ t))"

definition since :: "world \<Rightarrow> world \<Rightarrow> event list" where
  "since w w' = drop (length (trace w)) (trace w')"

definition made :: "externals \<Rightarrow> IState \<Rightarrow> world \<Rightarrow> world \<Rightarrow> addr \<Rightarrow> bool" where
  "made ext st w0 w a =
     (next_addr w0 \<le> a \<and> a < next_addr w \<and> usable (objs w a)
      \<and> LookupCall (IDependency.reference (objs w a)) \<in> set (since w0 w)
      \<and> download (objs w a) = findDownloadByRef ext (IDependency.reference (objs w a)) st)"

lemma extends_refl: "extends w w"
  by (simp add: extends_def)

lemma extends_trans: "extends w w' \<Longrightarrow> extends w' w'' \<Longrightarrow> extends w w''"
  unfolding extends_def by (auto simp: less_le_trans)

lemma extends_emit: "extends w (emit ev w)"
  by (simp add: extends_def emit_def)

lemma extends_log_failed: "extends w (log_failed err w)"
  by (simp add: log_failed_def extends_emit)

lemma extends_alloc: "extends w (snd (alloc d w))"
  by (simp add: extends_def alloc_def)

lemma made_later: "made ext st w0 w a \<Longrightarrow> extends w w' \<Longrightarrow> made ext st w0 w' a"
  unfolding made_def extends_def since_def by auto

lemma made_rebase: "made ext st w1 w a \<Longrightarrow> extends w0 w1 \<Longrightarrow> made ext st w0 w a"
proof -
  assume m: "made ext st w1 w a" and e: "extends w0 w1"
  from e have "length (trace w0) \<le> length (trace w1)" by (auto simp: extends_def)
  then have "set (since w1 w) \<subseteq> set (since w0 w)"
    unfolding since_def by (rule set_drop_subset_set_drop)
  with m e show ?thesis unfolding made_def extends_def by auto
qed


lemma filterE_returns: "(\<And>x. x \<in> set xs \<Longrightarrow> \<exists>b. p x = Inr b) \<Longrightarrow> \<exists>ys. filterE p xs = Inr ys"
proof (induction xs)
  case Nil
  show ?case by simp
next
  case (Cons x xs)
  from Cons.prems [of x] obtain b where "p x = Inr b" by auto
  moreover from Cons obtain ys where "filterE p xs = Inr ys" by auto
  ultimately show ?case by simp
qed

lemma mapE_returns: "(\<And>x. x \<in> set xs \<Longrightarrow> \<exists>y. f x = Inr y) \<Longrightarrow> \<exists>ys. mapE f xs = Inr ys"
proof (induction xs)
  case Nil
  show ?case by simp
next
  case (Cons x xs)
  from Cons.prems [of x] obtain y where "f x = Inr y" by auto
  moreover from Cons obtain ys where "mapE f xs = Inr ys" by auto
  ultimately show ?case by simp
qed

lemma usable_first:
  "usable d \<Longrightarrow> \<exists>l v. first (lookupResults d) = Some l \<and> lookup_value l = Some v"
  by (cases "lookupResults d") (auto simp: usable_def first_def)

lemma collateralOf_returns:
  assumes "usable (h d)"
  shows "\<exists>c. collateralOf ext h input d = Inr c"
proof -
  from usable_first [OF assms] obtain l v
    where l: "first (lookupResults (h d)) = Some l" "lookup_value l = Some v" by blast
  have "\<exists>ys. filterE (\<lambda>(item, idx).
                      if item \<noteq> d
                      then lookupFulfills ext (first (lookupResults (h d)))
                             (IDependency.reference (h item))
                      else Inr False)
                   (zip input [0..<length input]) = Inr ys"
    by (rule filterE_returns) (auto simp: l lookupFulfills_returns)
  then show ?thesis by (auto simp: collateralOf_def)
qed

lemma removeDuplicates_returns:
  assumes "\<And>a. a \<in> set input \<Longrightarrow> usable (h a)"
  shows "\<exists>out. removeDuplicates ext h input = Inr out"
proof -
  have "\<exists>entries. mapE (\<lambda>d. case collateralOf ext h input d of
                       Inl e \<Rightarrow> Inl e
                     | Inr c \<Rightarrow> Inr \<lparr> dep = d, collateral = c \<rparr>) input = Inr entries"
  proof (rule mapE_returns)
    fix x assume "x \<in> set input"
    with assms collateralOf_returns [of h x ext input]
    show "\<exists>y. (case collateralOf ext h input x of
                       Inl e \<Rightarrow> Inl e
                     | Inr c \<Rightarrow> Inr \<lparr> dep = x, collateral = c \<rparr>) = Inr y"
      by auto
  qed
  then show ?thesis by (auto simp: removeDuplicates_def Let_def)
qed

text \<open>What a settled resolution guarantees, started in the world \<open>w\<close>.\<close>

definition settled_well ::
  "externals \<Rightarrow> IState \<Rightarrow> world \<Rightarrow> (error + addr list) \<times> world \<Rightarrow> bool" where
  "settled_well ext st w res =
     (extends w (snd res)
      \<and> (\<forall>out. fst res = Inr out \<longrightarrow> (\<forall>a \<in> set out. made ext st w (snd res) a))
      \<and> (mods st (activeGameId st) \<noteq> None \<longrightarrow> (\<exists>out. fst res = Inr out)))"

lemma step_inv:
  assumes g: "\<And>rs w res. g rs w = Some res \<Longrightarrow> settled_well ext st w res"
    and step: "requirementStep g ext api st acc rule w = Some (r, w')"
    and base: "extends w0 w"
    and acc: "\<forall>a \<in> set acc. made ext st w0 w a"
  shows "extends w w'
         \<and> (\<forall>acc'. r = Inr acc' \<longrightarrow> (\<forall>a \<in> set acc'. made ext st w0 w' a))
         \<and> (mods st (activeGameId st) \<noteq> None \<longrightarrow> (\<exists>acc'. r = Inr acc'))"
proof (cases "findModByRef ext (IRule.reference rule) st")
  case (Inl e)
  then have "mods st (activeGameId st) = None"
    by (auto simp: findModByRef_relax split: option.splits)
  with Inl step acc show ?thesis by (auto simp: step_throws extends_refl)
next
  case (Inr found)
  show ?thesis
  proof (cases found)
    case (Some m)
    with Inr step acc show ?thesis by (auto simp: step_installed extends_refl)
  next
    case None
    let ?w1 = "emit (LookupCall (IRule.reference rule)) w"
    show ?thesis
    proof (cases "lookup_failure (lookupModReference api (trace w) (IRule.reference rule))")
      case (Some err)
      with Inr None step have r: "r = Inr acc" and w': "w' = log_failed err ?w1"
        by (simp_all add: step_lookup_failed)
      have e: "extends w w'"
        unfolding w' using extends_trans [OF extends_emit extends_log_failed] .
      with acc made_later show ?thesis unfolding r by blast
    next
      case no_failure: None
      then obtain d ds v where
        found: "lookupModReference api (trace w) (IRule.reference rule) = Inr (d # ds)"
        and v: "lookup_value d = Some v"
        by (auto simp: lookup_failure_def split: sum.splits list.splits option.splits)
      let ?new = "\<lparr> download = findDownloadByRef ext (IRule.reference rule) st,
                     reference = IRule.reference rule, lookupResults = d # ds \<rparr>"
      from step obtain r2 w2 where
        rec: "g (rules v) ?w1 = Some (r2, w2)"
        and rest: "(case r2 of
               Inl err \<Rightarrow> Some (Inr acc, log_failed err w2)
             | Inr dependencies \<Rightarrow>
                 Some (Inr (acc @ dependencies @ [next_addr w2]), snd (alloc ?new w2)))
             = Some (r, w')"
        unfolding step_lookup_found [OF Inr [unfolded None] found v]
        by (auto simp: bind_eq_Some_conv)
      from g [OF rec] have e12: "extends ?w1 w2"
        and deps: "\<And>out a. r2 = Inr out \<Longrightarrow> a \<in> set out \<Longrightarrow> made ext st ?w1 w2 a"
        by (auto simp: settled_well_def)
      have e1: "extends w ?w1" by (rule extends_emit)
      have e2: "extends w w2" using extends_trans [OF e1 e12] .
      have e01: "extends w0 ?w1" using extends_trans [OF base e1] .
      have e02: "extends w0 w2" using extends_trans [OF base e2] .
      show ?thesis
      proof (cases r2)
        case (Inl err)
        with rest have r: "r = Inr acc" and w': "w' = log_failed err w2" by simp_all
        have e: "extends w w'"
          unfolding w' using extends_trans [OF e2 extends_log_failed] .
        with acc made_later show ?thesis unfolding r by blast
      next
        case deps_ok: (Inr dependencies)
        with rest have r: "r = Inr (acc @ dependencies @ [next_addr w2])"
          and w': "w' = snd (alloc ?new w2)" by simp_all
        have e23: "extends w2 w'" unfolding w' by (rule extends_alloc)
        have e: "extends w w'" using extends_trans [OF e2 e23] .
        have old: "made ext st w0 w' a" if "a \<in> set acc" for a
          using acc that made_later e by blast
        have sub: "made ext st w0 w' a" if "a \<in> set dependencies" for a
          using made_later [OF made_rebase [OF deps [OF deps_ok that] e01] e23] .
        have "LookupCall (IRule.reference rule) \<in> set (since w0 w2)"
        proof -
          from base obtain t where t: "trace w = trace w0 @ t" by (auto simp: extends_def)
          from e12 obtain t2 where "trace w2 = trace ?w1 @ t2" by (auto simp: extends_def)
          then have "trace w2 = trace w0 @ t @ [LookupCall (IRule.reference rule)] @ t2"
            by (simp add: emit_def t)
          then show ?thesis by (simp add: since_def)
        qed
        then have new: "made ext st w0 w' (next_addr w2)"
          using e02 unfolding w' made_def
          by (simp add: alloc_def usable_def v since_def extends_def)
        from old sub new e show ?thesis unfolding r by auto
      qed
    qed
  qed
qed


lemma reduce_inv:
  assumes g: "\<And>rs w res. g rs w = Some res \<Longrightarrow> settled_well ext st w res"
  shows "promiseReduce (requirementStep g ext api st) reqs acc w = Some (r, w') \<Longrightarrow>
         extends w0 w \<Longrightarrow> \<forall>a \<in> set acc. made ext st w0 w a \<Longrightarrow>
         extends w w'
         \<and> (\<forall>acc'. r = Inr acc' \<longrightarrow> (\<forall>a \<in> set acc'. made ext st w0 w' a))
         \<and> (mods st (activeGameId st) \<noteq> None \<longrightarrow> (\<exists>acc'. r = Inr acc'))"
proof (induction reqs arbitrary: acc w)
  case Nil
  then show ?case by (auto simp: extends_refl)
next
  case (Cons rule reqs)
  from Cons.prems(1) obtain r1 w1 where
    step: "requirementStep g ext api st acc rule w = Some (r1, w1)"
    and rest: "(case r1 of Inl e \<Rightarrow> Some (Inl e, w1)
                | Inr acc' \<Rightarrow> promiseReduce (requirementStep g ext api st) reqs acc' w1)
               = Some (r, w')"
    by (auto simp: bind_eq_Some_conv)
  note s = step_inv [OF g step Cons.prems(2) Cons.prems(3)]
  show ?case
  proof (cases r1)
    case (Inl e)
    with rest s show ?thesis by auto
  next
    case (Inr acc1)
    with rest have red: "promiseReduce (requirementStep g ext api st) reqs acc1 w1 = Some (r, w')"
      by simp
    from s Inr have e1: "extends w w1" and m1: "\<forall>a \<in> set acc1. made ext st w0 w1 a" by auto
    have e01: "extends w0 w1" using extends_trans [OF Cons.prems(2) e1] .
    from Cons.IH [OF red e01 m1] e1 show ?thesis
      using extends_trans by blast
  qed
qed

lemma made_usable: "made ext st w0 w a \<Longrightarrow> usable (objs w a)"
  by (simp add: made_def)

lemma finish_inv:
  assumes red: "extends w w1"
      "\<forall>input. r1 = Inr input \<longrightarrow> (\<forall>a \<in> set input. made ext st w w1 a)"
      "mods st (activeGameId st) \<noteq> None \<longrightarrow> (\<exists>input. r1 = Inr input)"
    and fin: "finish ext (r1, w1) = Some res"
  shows "settled_well ext st w res"
proof (cases r1)
  case (Inl e)
  with fin red show ?thesis by (auto simp: finish_def settled_well_def)
next
  case (Inr input)
  with fin have res: "res = (removeDuplicates ext (objs w1) input, w1)"
    by (auto simp: finish_def)
  from red(2) Inr have m: "\<And>a. a \<in> set input \<Longrightarrow> made ext st w w1 a" by auto
  have "\<exists>out. removeDuplicates ext (objs w1) input = Inr out"
    using removeDuplicates_returns [of input "objs w1" ext] m made_usable by blast
  moreover have "\<And>out a. removeDuplicates ext (objs w1) input = Inr out \<Longrightarrow> a \<in> set out
                   \<Longrightarrow> made ext st w w1 a"
    using removeDuplicates_subset(1) m by blast
  ultimately show ?thesis using red(1) unfolding res settled_well_def by auto
qed

lemma gather_inv:
  assumes "gatherDependencies ext api rs w = Some res"
  shows "settled_well ext (getState api) w res"
proof (rule gatherDependencies.raw_induct
    [where P = "\<lambda>ext api rs w res. settled_well ext (getState api) w res", OF _ assms],
    goal_cases)
  case (1 g ext api rs w res)
  from "1"(2) obtain r1 w1 where
    red: "promiseReduce (requirementStep (g ext api) ext api (getState api))
            (requirementsOf rs) [] w = Some (r1, w1)"
    and fin: "finish ext (r1, w1) = Some res"
    by (auto simp: requirementsOf_def finish_def bind_eq_Some_conv)
  have g: "\<And>rs w res. g ext api rs w = Some res \<Longrightarrow> settled_well ext (getState api) w res"
    using "1"(1) by blast
  have "extends w w1
         \<and> (\<forall>acc'. r1 = Inr acc' \<longrightarrow> (\<forall>a \<in> set acc'. made ext (getState api) w w1 a))
         \<and> (mods (getState api) (activeGameId (getState api)) \<noteq> None \<longrightarrow> (\<exists>acc'. r1 = Inr acc'))"
    using reduce_inv [of "g ext api" ext "getState api" api "requirementsOf rs" "[]" w r1 w1 w]
      g red extends_refl
    by simp
  then show ?case using finish_inv fin by blast
qed


lemma promiseReduce_append:
  "promiseReduce f (xs @ ys) acc w =
     Option.bind (promiseReduce f xs acc w)
       (\<lambda>(r, w'). case r of Inl e \<Rightarrow> Some (Inl e, w') | Inr acc' \<Rightarrow> promiseReduce f ys acc' w')"
proof (induction xs arbitrary: acc w)
  case Nil
  show ?case by simp
next
  case (Cons x xs)
  show ?case
    by (cases "f acc x w") (auto simp: Cons.IH split: sum.splits)
qed

lemma requirementsOf_append:
  "requirementsOf (Some (xs @ ys)) = requirementsOf (Some xs) @ requirementsOf (Some ys)"
  by (simp add: requirementsOf_def)

lemma requirementsOf_Cons:
  "type rule = ''requires'' \<Longrightarrow>
     requirementsOf (Some (rule # rest)) = rule # requirementsOf (Some rest)"
  by (simp add: requirementsOf_def)

lemma gather_no_requirements:
  "requirementsOf rs = [] \<Longrightarrow> gatherDependencies ext api rs w = Some (Inr [], w)"
  by (simp add: gatherDependencies_unfold finish_def removeDuplicates_Nil)

lemma gather_skips_installed:
  assumes "type rule = ''requires''"
    and "findModByRef ext (IRule.reference rule) (getState api) = Inr (Some m)"
  shows "gatherDependencies ext api (Some (before @ rule # after)) w
           = gatherDependencies ext api (Some (before @ after)) w"
proof -
  let ?f = "requirementStep (gatherDependencies ext api) ext api (getState api)"
  have step: "promiseReduce ?f (rule # xs) acc w' = promiseReduce ?f xs acc w'" for acc w' xs
    by (simp add: step_installed [OF assms(2)])
  have "promiseReduce ?f (requirementsOf (Some (before @ rule # after))) [] w
           = promiseReduce ?f (requirementsOf (Some (before @ after))) [] w"
    by (simp only: requirementsOf_append requirementsOf_Cons [OF assms(1)] promiseReduce_append step)
  then show ?thesis
    by (simp add: gatherDependencies_unfold [of ext api "Some (before @ rule # after)"]
          gatherDependencies_unfold [of ext api "Some (before @ after)"])
qed

lemma gather_skips_failed:
  assumes "type rule = ''requires''"
    and "findModByRef ext (IRule.reference rule) (getState api) = Inr None"
    and "lookup_failure (lookupModReference api (trace w) (IRule.reference rule)) = Some err"
  shows "gatherDependencies ext api (Some (rule # rest)) w
           = gatherDependencies ext api (Some rest)
               (log_failed err (emit (LookupCall (IRule.reference rule)) w))"
  by (simp add: gatherDependencies_unfold [of ext api "Some (rule # rest)"]
        gatherDependencies_unfold [of ext api "Some rest"]
        requirementsOf_Cons [OF assms(1)] step_lookup_failed [OF assms(2) assms(3)])

lemma reduce_settles:
  assumes mods: "mods st (activeGameId st) \<noteq> None"
  shows "(\<And>rule tr d ds v w. rule \<in> set reqs \<Longrightarrow>
            lookupModReference api tr (IRule.reference rule) = Inr (d # ds) \<Longrightarrow>
            lookup_value d = Some v \<Longrightarrow> \<exists>res. g (rules v) w = Some res)
         \<Longrightarrow> \<exists>acc' w'. promiseReduce (requirementStep g ext api st) reqs acc w = Some (Inr acc', w')"
proof (induction reqs arbitrary: acc w)
  case Nil
  show ?case by simp
next
  case (Cons rule reqs)
  have rest: "\<exists>acc' w'. promiseReduce (requirementStep g ext api st) reqs acc1 w1 = Some (Inr acc', w')"
    for acc1 w1
  proof (rule Cons.IH)
    fix rule' tr d ds v w2
    assume "rule' \<in> set reqs"
      "lookupModReference api tr (IRule.reference rule') = Inr (d # ds)" "lookup_value d = Some v"
    then show "\<exists>res. g (rules v) w2 = Some res"
      using Cons.prems [of rule' tr d ds v w2] by simp
  qed
  from mods obtain found where f: "findModByRef ext (IRule.reference rule) st = Inr found"
    by (auto simp: findModByRef_relax)
  have "\<exists>acc1 w1. requirementStep g ext api st acc rule w = Some (Inr acc1, w1)"
  proof (cases found)
    case (Some m)
    with f show ?thesis by (simp add: step_installed)
  next
    case None
    show ?thesis
    proof (cases "lookup_failure (lookupModReference api (trace w) (IRule.reference rule))")
      case (Some err)
      with f None show ?thesis by (simp add: step_lookup_failed)
    next
      case no_failure: None
      then obtain d ds v where
        found: "lookupModReference api (trace w) (IRule.reference rule) = Inr (d # ds)"
        and v: "lookup_value d = Some v"
        by (auto simp: lookup_failure_def split: sum.splits list.splits option.splits)
      from Cons.prems [of rule "trace w" d ds v] found v
      obtain r2 w2 where "g (rules v) (emit (LookupCall (IRule.reference rule)) w) = Some (r2, w2)"
        by fastforce
      then show ?thesis
        unfolding step_lookup_found [OF f [unfolded None] found v]
        by (cases r2) simp_all
    qed
  qed
  then obtain acc1 w1 where "requirementStep g ext api st acc rule w = Some (Inr acc1, w1)"
    by blast
  with rest [of acc1 w1] show ?case by simp
qed

lemma gather_settles:
  assumes mods: "mods (getState api) (activeGameId (getState api)) \<noteq> None"
    and rank: "\<And>rs rule tr d ds v. rule \<in> set (requirementsOf rs) \<Longrightarrow>
                 lookupModReference api tr (IRule.reference rule) = Inr (d # ds) \<Longrightarrow>
                 lookup_value d = Some v \<Longrightarrow> rank (rules v) < (rank rs :: nat)"
  shows "\<exists>out w'. gatherDependencies ext api rs w = Some (Inr out, w')"
proof (induction "rank rs" arbitrary: rs w rule: less_induct)
  case less
  have nested: "\<exists>res. gatherDependencies ext api (rules v) w1 = Some res"
    if "rule \<in> set (requirementsOf rs)"
      "lookupModReference api tr (IRule.reference rule) = Inr (d # ds)" "lookup_value d = Some v"
    for rule tr d ds v w1
    using less [OF rank [OF that], of w1] by blast
  from reduce_settles [OF mods, of "requirementsOf rs" api "gatherDependencies ext api" ext "[]" w]
    nested
  obtain input w1 where
    red: "promiseReduce (requirementStep (gatherDependencies ext api) ext api (getState api))
            (requirementsOf rs) [] w = Some (Inr input, w1)"
    by blast
  then obtain res where res: "gatherDependencies ext api rs w = Some res"
    by (simp add: gatherDependencies_unfold finish_def)
  from gather_inv [OF res] mods obtain out where "fst res = Inr out"
    by (auto simp: settled_well_def)
  with res show ?case by (cases res) auto
qed



definition ref_missing :: IReference where
  "ref_missing = no_constraints\<lparr>IReference.logicalFileName := Some ''Missing''\<rparr>"

definition rule_missing :: IRule where
  "rule_missing = \<lparr> type = ''requires'', IRule.reference = ref_missing \<rparr>"

definition rule_fuzzy :: IRule where
  "rule_fuzzy = \<lparr> type = ''requires'', IRule.reference = ref_fuzzy \<rparr>"

definition world0 :: world where
  "world0 = \<lparr> objs = (\<lambda>a. dep_md5 [] []), next_addr = 0, trace = [] \<rparr>"

definition api_installed :: api where
  "api_installed =
     \<lparr> getState = state_installed, lookupModReference = (\<lambda>tr r. Inl (Error ''offline'')) \<rparr>"

definition api_mixed :: api where
  "api_mixed =
     \<lparr> getState = state_cycle,
       lookupModReference =
         (\<lambda>tr r. if r = ref_missing then Inl (Error ''offline'') else Inr [lookup_abc]) \<rparr>"

definition api_cycle :: api where
  "api_cycle =
     \<lparr> getState = state_cycle,
       lookupModReference =
         (\<lambda>tr r. Inr [\<lparr> key = ''k'',
                         lookup_value = Some (info_abc\<lparr>rules := Some [rule_fuzzy]\<rparr>) \<rparr>]) \<rparr>"

lemma find_mod_installed: "findModByRef ext_plain ref_fuzzy state_installed = Inr (Some mod_a)"
  by (simp add: findModByRef_relax relax_def isFuzzyVersion_def truthy_def hexDigit_def
        ref_fuzzy_def ext_plain_def state_installed_def)

lemma find_mod_cycle: "findModByRef ext ref state_cycle = Inr None"
  by (simp add: findModByRef_relax state_cycle_def)



lemma gather_cycle_never_settles:
  "gatherDependencies ext_plain api_cycle (Some [rule_fuzzy]) w = None"
proof (rule ccontr)
  assume "gatherDependencies ext_plain api_cycle (Some [rule_fuzzy]) w \<noteq> None"
  then obtain res where res: "gatherDependencies ext_plain api_cycle (Some [rule_fuzzy]) w = Some res"
    by blast
  have "\<not> (ext_plain = ext_plain \<and> api_cycle = api_cycle \<and> Some [rule_fuzzy] = Some [rule_fuzzy])"
  proof (rule gatherDependencies.raw_induct
      [where P = "\<lambda>ext api rs w res. \<not> (ext = ext_plain \<and> api = api_cycle \<and> rs = Some [rule_fuzzy])",
        OF _ res], goal_cases)
    case (1 g ext api rs w res)
    show ?case
    proof
      assume eq: "ext = ext_plain \<and> api = api_cycle \<and> rs = Some [rule_fuzzy]"
      have st: "getState api_cycle = state_cycle" by (simp add: api_cycle_def)
      have ty: "type rule_fuzzy = ''requires''" by (simp add: rule_fuzzy_def)
      have lk: "lookupModReference api_cycle tr r
                  = Inr [\<lparr> key = ''k'', lookup_value = Some (info_abc\<lparr>rules := Some [rule_fuzzy]\<rparr>) \<rparr>]"
        for tr r by (simp add: api_cycle_def)
      from "1"(2) eq obtain r1 w1 where
        "requirementStep (g ext_plain api_cycle) ext_plain api_cycle state_cycle [] rule_fuzzy w
           = Some (r1, w1)"
        by (auto simp: st ty bind_eq_Some_conv)
      then obtain y where
        "g ext_plain api_cycle (Some [rule_fuzzy]) (emit (LookupCall (IRule.reference rule_fuzzy)) w)
           = Some y"
        using step_lookup_found
          [where g = "g ext_plain api_cycle" and acc = "[]" and w = w and rule = rule_fuzzy
             and ext = ext_plain and st = state_cycle and api = api_cycle
             and v = "info_abc\<lparr>rules := Some [rule_fuzzy]\<rparr>",
           OF find_mod_cycle lk]
        by (auto simp: bind_eq_Some_conv)
      from "1"(1) [OF this] show False by simp
    qed
  qed
  then show False by simp
qed


text \<open>
  C5. For a \<open>requires\<close> rule whose reference \<open>findModByRef\<close> finds installed, the step
  of the reduction returns the running list and the world as they were, so nothing is
  looked up or logged for it; resolving a rule list with the rule equals resolving the
  list without it; and resolving the rule alone returns the empty list in the world
  it started in.
\<close>

theorem installed_requirement_skipped:
  "type rule = ''requires''
     \<and> findModByRef ext (IRule.reference rule) (getState api) = Inr (Some m) \<longrightarrow>
   requirementStep g ext api (getState api) acc rule w = Some (Inr acc, w)
   \<and> gatherDependencies ext api (Some (before @ rule # after)) w
       = gatherDependencies ext api (Some (before @ after)) w
   \<and> gatherDependencies ext api (Some [rule]) w = Some (Inr [], w)"
proof (intro impI, elim conjE)
  assume ty: "type rule = ''requires''"
    and hit: "findModByRef ext (IRule.reference rule) (getState api) = Inr (Some m)"
  have "gatherDependencies ext api (Some [rule]) w = gatherDependencies ext api (Some []) w"
    using gather_skips_installed [OF ty hit, of "[]" "[]" w] by simp
  then have "gatherDependencies ext api (Some [rule]) w = Some (Inr [], w)"
    by (simp add: gather_no_requirements requirementsOf_def)
  with step_installed [OF hit] gather_skips_installed [OF ty hit]
  show "requirementStep g ext api (getState api) acc rule w = Some (Inr acc, w)
   \<and> gatherDependencies ext api (Some (before @ rule # after)) w
       = gatherDependencies ext api (Some (before @ after)) w
   \<and> gatherDependencies ext api (Some [rule]) w = Some (Inr [], w)"
    by blast
qed

theorem installed_requirement_skipped_witness:
  "type rule_fuzzy = ''requires''
   \<and> findModByRef ext_plain (IRule.reference rule_fuzzy) (getState api_installed) = Inr (Some mod_a)
   \<and> gatherDependencies ext_plain api_installed (Some [rule_fuzzy]) world0 = Some (Inr [], world0)"
  using installed_requirement_skipped [of rule_fuzzy ext_plain api_installed mod_a _ _ world0]
    find_mod_installed
  by (simp add: rule_fuzzy_def api_installed_def)

text \<open>
  C3, amended. Let the active game have a table of installed mods, and let the rule
  lists the lookup can return be of bounded depth: some rank decreases from a rule list
  to the rules of the first candidate of any of its requirements. Then
  \<open>gatherDependencies\<close> settles with a list, never with an error. A requirement that
  is not installed and whose lookup is rejected, returns no candidate or returns a
  first candidate without a value leaves the running list as it was, adds the lookup
  and the logged failure to the trace, and the resolution goes on with the remaining
  requirements.
\<close>

theorem failed_lookup_contributes_nothing:
  assumes "mods (getState api) (activeGameId (getState api)) \<noteq> None"
    and "\<And>rs rule tr d ds v. rule \<in> set (requirementsOf rs) \<Longrightarrow>
           lookupModReference api tr (IRule.reference rule) = Inr (d # ds) \<Longrightarrow>
           lookup_value d = Some v \<Longrightarrow> rank (rules v) < (rank rs :: nat)"
  shows "(\<exists>out w'. gatherDependencies ext api rs w = Some (Inr out, w'))
    \<and> (findModByRef ext (IRule.reference rule) (getState api) = Inr None
        \<and> lookup_failure (lookupModReference api (trace w) (IRule.reference rule)) = Some err \<longrightarrow>
          requirementStep g ext api (getState api) acc rule w
            = Some (Inr acc, log_failed err (emit (LookupCall (IRule.reference rule)) w))
          \<and> (type rule = ''requires'' \<longrightarrow>
               gatherDependencies ext api (Some (rule # rest)) w
                 = gatherDependencies ext api (Some rest)
                     (log_failed err (emit (LookupCall (IRule.reference rule)) w))))"
proof -
  have "\<exists>out w'. gatherDependencies ext api rs w = Some (Inr out, w')"
    by (rule gather_settles [where rank = rank]) (use assms in blast)+
  then show ?thesis
    using step_lookup_failed gather_skips_failed by blast
qed

theorem failed_lookup_contributes_nothing_witness:
  "mods (getState api_mixed) (activeGameId (getState api_mixed)) \<noteq> None
   \<and> findModByRef ext_plain (IRule.reference rule_missing) (getState api_mixed) = Inr None
   \<and> lookup_failure (lookupModReference api_mixed (trace world0) (IRule.reference rule_missing))
       = Some (Error ''offline'')
   \<and> gatherDependencies ext_plain api_mixed (Some [rule_missing]) world0
       = Some (Inr [], world0\<lparr>trace := [LookupCall ref_missing,
                                          Log ''error'' ''failed to look up'' ''offline'']\<rparr>)"
proof -
  have mods: "mods (getState api_mixed) (activeGameId (getState api_mixed)) \<noteq> None"
    by (simp add: api_mixed_def state_cycle_def)
  have rank: "length (requirementsOf (rules v)) < length (requirementsOf rs)"
    if "rule \<in> set (requirementsOf rs)"
      "lookupModReference api_mixed tr (IRule.reference rule) = Inr (d # ds)"
      "lookup_value d = Some v"
    for rs rule tr d ds v
  proof -
    from that(2) have "d = lookup_abc" by (auto simp: api_mixed_def split: if_splits)
    with that(3) have "rules v = None" by (auto simp: lookup_abc_def info_abc_def)
    moreover from that(1) have "0 < length (requirementsOf rs)" by (cases "requirementsOf rs") auto
    ultimately show ?thesis by (simp add: requirementsOf_def)
  qed
  have miss: "findModByRef ext_plain (IRule.reference rule_missing) (getState api_mixed) = Inr None"
    by (simp add: api_mixed_def find_mod_cycle)
  have fail: "lookup_failure (lookupModReference api_mixed (trace world0) (IRule.reference rule_missing))
       = Some (Error ''offline'')"
    by (simp add: lookup_failure_def api_mixed_def rule_missing_def)
  have ty: "type rule_missing = ''requires''" by (simp add: rule_missing_def)
  have "(\<exists>out w'. gatherDependencies ext_plain api_mixed (Some [rule_missing]) world0
            = Some (Inr out, w'))
    \<and> (findModByRef ext_plain (IRule.reference rule_missing) (getState api_mixed) = Inr None
        \<and> lookup_failure (lookupModReference api_mixed (trace world0) (IRule.reference rule_missing))
            = Some (Error ''offline'') \<longrightarrow>
          requirementStep (gatherDependencies ext_plain api_mixed) ext_plain api_mixed
              (getState api_mixed) [] rule_missing world0
            = Some (Inr [], log_failed (Error ''offline'')
                (emit (LookupCall (IRule.reference rule_missing)) world0))
          \<and> (type rule_missing = ''requires'' \<longrightarrow>
               gatherDependencies ext_plain api_mixed (Some (rule_missing # [])) world0
                 = gatherDependencies ext_plain api_mixed (Some [])
                     (log_failed (Error ''offline'')
                        (emit (LookupCall (IRule.reference rule_missing)) world0))))"
  proof (rule failed_lookup_contributes_nothing [where rank = "\<lambda>rs. length (requirementsOf rs)"])
    show "mods (getState api_mixed) (activeGameId (getState api_mixed)) \<noteq> None" by (rule mods)
    show "\<And>rs rule tr d ds v. rule \<in> set (requirementsOf rs) \<Longrightarrow>
           lookupModReference api_mixed tr (IRule.reference rule) = Inr (d # ds) \<Longrightarrow>
           lookup_value d = Some v \<Longrightarrow>
           length (requirementsOf (rules v)) < length (requirementsOf rs)"
      by (rule rank)
  qed
  with miss fail ty
  have "gatherDependencies ext_plain api_mixed (Some [rule_missing]) world0
          = gatherDependencies ext_plain api_mixed (Some [])
              (log_failed (Error ''offline'') (emit (LookupCall (IRule.reference rule_missing)) world0))"
    by blast
  then have "gatherDependencies ext_plain api_mixed (Some [rule_missing]) world0
       = Some (Inr [], world0\<lparr>trace := [LookupCall ref_missing,
                                          Log ''error'' ''failed to look up'' ''offline'']\<rparr>)"
    by (simp add: gather_no_requirements requirementsOf_def log_failed_def emit_def world0_def
          rule_missing_def)
  with mods miss fail show ?thesis by simp
qed

text \<open>
  Outside the amended claim: without a table of mods for the active game the
  \<open>TypeError\<close> of \<open>findModByRef\<close> is thrown before the promise chain with its \<open>catch\<close>
  exists, and the resolution is rejected with it.
\<close>

definition api_no_table :: api where
  "api_no_table =
     \<lparr> getState = \<lparr> activeGameId = ''skyrim'', mods = (\<lambda>g. None), files = [] \<rparr>,
       lookupModReference = (\<lambda>tr r. Inr [lookup_abc]) \<rparr>"

lemma gather_rejected_without_table:
  "gatherDependencies ext_plain api_no_table (Some [rule_fuzzy]) world0
     = Some (Inl (TypeError ''Cannot convert undefined or null to object''), world0)"
proof -
  have "findModByRef ext_plain (IRule.reference rule_fuzzy) (getState api_no_table)
          = Inl (TypeError ''Cannot convert undefined or null to object'')"
    by (simp add: findModByRef_relax api_no_table_def)
  then have "requirementStep g ext_plain api_no_table (getState api_no_table) [] rule_fuzzy world0
          = Some (Inl (TypeError ''Cannot convert undefined or null to object''), world0)" for g
    by (rule step_throws)
  moreover have "requirementsOf (Some [rule_fuzzy]) = [rule_fuzzy]"
    by (simp add: requirementsOf_def rule_fuzzy_def)
  ultimately show ?thesis
    by (simp add: gatherDependencies_unfold [of ext_plain api_no_table "Some [rule_fuzzy]"]
          finish_def)
qed

text \<open>
  C3 as stated fails: where the candidate returned for a reference requires the same
  reference again, the resolution never settles.
\<close>

theorem gatherDependencies_never_settles:
  "gatherDependencies ext_plain api_cycle (Some [rule_fuzzy]) world0 = None"
  by (rule gather_cycle_never_settles)


subsection \<open>Reference objects in the store\<close>

text \<open>
  A reference is an object: a rule and a dependency hold its address, and a function
  that receives it could write it. Here the same functions are embedded with the
  references as cells of a store, to state what happens to the objects themselves. The
  match predicate and the library functions read the objects they are given.
\<close>

type_synonym raddr = nat

record refstore =
  ref_at :: "raddr \<Rightarrow> IReference"
  next_ref :: raddr

record IRuleObj =
  type :: string
  reference :: raddr

record IModInfoObj =
  gameId :: string
  fileMD5 :: string
  fileSizeBytes :: int
  logicalFileName :: "string option"
  fileName :: string
  fileVersion :: string
  rules :: "IRuleObj list option"

record ILookupResultObj =
  key :: string
  lookup_value :: "IModInfoObj option"

record IDependencyObj =
  download :: "string option"
  reference :: raddr
  lookupResults :: "ILookupResultObj list"





text \<open>
  \<open>_.omit(reference, ['fileMD5'])\<close> creates an object: a new cell of the store. The
  assignment to the parameter \<open>reference\<close> changes the address the local variable
  holds, here \<open>ref'\<close>.
\<close>

definition omit_fileMD5_obj :: "raddr \<Rightarrow> refstore \<Rightarrow> raddr \<times> refstore" where
  "omit_fileMD5_obj p rs =
     (next_ref rs,
      rs\<lparr>ref_at := (ref_at rs)(next_ref rs := omit_fileMD5 (ref_at rs p)),
         next_ref := Suc (next_ref rs)\<rparr>)"

definition findModByRefObj ::
  "externals \<Rightarrow> raddr \<Rightarrow> IState \<Rightarrow> refstore \<Rightarrow> (error + IMod option) \<times> refstore" where
  "findModByRefObj ext ref state rs =
     (let gameMode = activeGameId state;
          game_mods = mods state gameMode;
          (ref', rs') =
            (if IReference.versionMatch (ref_at rs ref) \<noteq> None
                \<and> isFuzzyVersion ext (IReference.versionMatch (ref_at rs ref))
                \<and> IReference.fileMD5 (ref_at rs ref) \<noteq> None
                \<and> (IReference.logicalFileName (ref_at rs ref) \<noteq> None
                    \<or> IReference.fileExpression (ref_at rs ref) \<noteq> None)
             then omit_fileMD5_obj ref rs else (ref, rs))
      in (case game_mods of
            None \<Rightarrow> Inl (TypeError ''Cannot convert undefined or null to object'')
          | Some ms \<Rightarrow>
              Inr (find_first (\<lambda>m. testModReference ext (ModShape m) (ref_at rs' ref')) ms),
          rs'))"

definition findDownloadByRefObj ::
  "externals \<Rightarrow> raddr \<Rightarrow> IState \<Rightarrow> refstore \<Rightarrow> string option \<times> refstore" where
  "findDownloadByRefObj ext ref state rs =
     (let downloads = files state;
          (ref', rs') =
            (if isFuzzyVersion ext (IReference.versionMatch (ref_at rs ref))
                \<and> IReference.fileMD5 (ref_at rs ref) \<noteq> None
                \<and> (IReference.logicalFileName (ref_at rs ref) \<noteq> None
                    \<or> IReference.fileExpression (ref_at rs ref) \<noteq> None)
             then omit_fileMD5_obj ref rs else (ref, rs));
          existing =
            sort_cmp (\<lambda>lhs rhs. newerSort ext (snd lhs) (snd rhs))
              (filter (\<lambda>(dlId, dl).
                         testModReference ext (LookupShape (lookupOf dl)) (ref_at rs' ref'))
                 downloads)
      in (map_option fst (first existing), rs'))"

text \<open>
  The world of a resolution with the store of references. A call of the lookup is
  recorded with the address it was given and what the object held then. The lookup
  receives an object and returns objects that hold rules: it takes the store and
  returns the store it left.
\<close>

datatype eventObj = LookupCallObj raddr IReference | LogObj string string string

record worldObj =
  refs :: refstore
  deps :: "addr \<Rightarrow> IDependencyObj"
  next_dep :: addr
  events :: "eventObj list"

record apiObj =
  getState :: IState
  lookupModReference ::
    "eventObj list \<Rightarrow> raddr \<Rightarrow> refstore \<Rightarrow> (error + ILookupResultObj list) \<times> refstore"

definition allocObj :: "IDependencyObj \<Rightarrow> worldObj \<Rightarrow> addr \<times> worldObj" where
  "allocObj d w =
     (next_dep w, w\<lparr>deps := (deps w)(next_dep w := d), next_dep := Suc (next_dep w)\<rparr>)"

definition emitObj :: "eventObj \<Rightarrow> worldObj \<Rightarrow> worldObj" where
  "emitObj ev w = w\<lparr>events := events w @ [ev]\<rparr>"

definition log_failedObj :: "error \<Rightarrow> worldObj \<Rightarrow> worldObj" where
  "log_failedObj err w = emitObj (LogObj ''error'' ''failed to look up'' (message err)) w"

type_synonym 'a promiseObj = "((error + 'a) \<times> worldObj) option"

fun promiseReduceObj ::
  "('b \<Rightarrow> 'a \<Rightarrow> worldObj \<Rightarrow> 'b promiseObj) \<Rightarrow> 'a list \<Rightarrow> 'b \<Rightarrow> worldObj \<Rightarrow> 'b promiseObj" where
  "promiseReduceObj f [] acc w = Some (Inr acc, w)"
| "promiseReduceObj f (x # xs) acc w =
     Option.bind (f acc x w)
       (\<lambda>(r, w'). case r of
           Inl e \<Rightarrow> Some (Inl e, w')
         | Inr acc' \<Rightarrow> promiseReduceObj f xs acc' w')"

lemma promiseReduceObj_mono [partial_function_mono]:
  assumes "\<And>acc x w. mono_option (\<lambda>f. F f acc x w)"
  shows "mono_option (\<lambda>f. promiseReduceObj (F f) xs acc w)"
proof (induction xs arbitrary: acc w)
  case Nil
  show ?case by (simp add: option.const_mono)
next
  case (Cons x xs)
  have "mono_option (\<lambda>f. case y of
           (Inl e, w') \<Rightarrow> Some (Inl e, w')
         | (Inr acc', w') \<Rightarrow> promiseReduceObj (F f) xs acc' w')" for y
    by (cases y; cases "fst y") (simp_all add: option.const_mono Cons.IH)
  then show ?case
    by (simp add: bind_mono [OF assms])
qed

definition requirementStepObj ::
  "(IRuleObj list option \<Rightarrow> worldObj \<Rightarrow> addr list promiseObj) \<Rightarrow> externals \<Rightarrow> apiObj \<Rightarrow> IState
     \<Rightarrow> addr list \<Rightarrow> IRuleObj \<Rightarrow> worldObj \<Rightarrow> addr list promiseObj" where
  "requirementStepObj gather ext api state acc rule w =
     (let (found, rs1) = findModByRefObj ext (IRuleObj.reference rule) state (refs w) in
      case found of
        Inl e \<Rightarrow> Some (Inl e, w\<lparr>refs := rs1\<rparr>)
      | Inr (Some m) \<Rightarrow> Some (Inr acc, w\<lparr>refs := rs1\<rparr>)
      | Inr None \<Rightarrow>
          (let (looked, rs2) =
                 apiObj.lookupModReference api (events w) (IRuleObj.reference rule) rs1;
               w1 = emitObj (LookupCallObj (IRuleObj.reference rule)
                               (ref_at rs1 (IRuleObj.reference rule)))
                      (w\<lparr>refs := rs2\<rparr>)
           in case looked of
             Inl err \<Rightarrow> Some (Inr acc, log_failedObj err w1)
           | Inr details \<Rightarrow>
               (case details of
                  [] \<Rightarrow> Some (Inr acc,
                          log_failedObj (Error ''reference not found: [object Object]'') w1)
                | d # ds \<Rightarrow>
                    (case ILookupResultObj.lookup_value d of
                       None \<Rightarrow> Some (Inr acc,
                          log_failedObj (Error ''reference not found: [object Object]'') w1)
                     | Some v \<Rightarrow>
                         Option.bind (gather (IModInfoObj.rules v) w1)
                           (\<lambda>(r, w2). case r of
                               Inl err \<Rightarrow> Some (Inr acc, log_failedObj err w2)
                             | Inr dependencies \<Rightarrow>
                                 (let (dl, rs3) = findDownloadByRefObj ext
                                        (IRuleObj.reference rule) state (refs w2);
                                      (a, w3) = allocObj
                                        \<lparr> IDependencyObj.download = dl,
                                          reference = IRuleObj.reference rule,
                                          lookupResults = details \<rparr> (w2\<lparr>refs := rs3\<rparr>)
                                  in Some (Inr (acc @ dependencies @ [a]), w3)))))))"


lemma requirementStepObj_mono [partial_function_mono]:
  assumes "\<And>rs w. mono_option (\<lambda>f. G f rs w)"
  shows "mono_option (\<lambda>f. requirementStepObj (G f) ext api state acc rule w)"
proof -
  obtain found rs1 where f: "findModByRefObj ext (IRuleObj.reference rule) state (refs w) = (found, rs1)"
    by (cases "findModByRefObj ext (IRuleObj.reference rule) state (refs w)")
  obtain looked rs2 where
    l: "apiObj.lookupModReference api (events w) (IRuleObj.reference rule) rs1 = (looked, rs2)"
    by (cases "apiObj.lookupModReference api (events w) (IRuleObj.reference rule) rs1")
  show ?thesis
  proof (cases found)
    case (Inl e)
    with f show ?thesis by (simp add: requirementStepObj_def option.const_mono)
  next
    case (Inr hit)
    show ?thesis
    proof (cases hit)
      case (Some m)
      with f Inr show ?thesis by (simp add: requirementStepObj_def option.const_mono)
    next
      case None
      show ?thesis
      proof (cases looked)
        case (Inl err)
        with f l Inr None show ?thesis by (simp add: requirementStepObj_def option.const_mono)
      next
        case details: (Inr details)
        show ?thesis
        proof (cases details)
          case Nil
          with f l Inr None details show ?thesis
            by (simp add: requirementStepObj_def option.const_mono)
        next
          case (Cons d ds)
          show ?thesis
          proof (cases "ILookupResultObj.lookup_value d")
            case no_value: None
            with f l Inr None details Cons show ?thesis
              by (simp add: requirementStepObj_def option.const_mono)
          next
            case (Some v)
            with f l Inr None details Cons show ?thesis
              by (simp add: requirementStepObj_def Let_def)
                 (intro bind_mono assms option.const_mono)
          qed
        qed
      qed
    qed
  qed
qed
























































end
